theory Spec2Isabelle
  imports Complex_Main "HOL-Library.Sublist"
begin

section \<open>Text: Python strings as sequences of code points\<close>

text \<open>
  A Python \<open>str\<close> is a sequence of Unicode code points; \<open>len\<close>, slicing and the regular
  expression engine all count code points. The model therefore takes a string to be a list of
  code points (natural numbers). \<open>uni\<close> reads an ASCII literal of the theory as such a list.
\<close>

type_synonym ustr = "nat list"

definition uni :: "string \<Rightarrow> ustr" where
  "uni s = map of_char s"

text \<open>
  \<open>str.isspace\<close> of one code point: the set that both \<open>str.strip()\<close> and the pattern
  \<open>\s\<close> (on \<open>str\<close> patterns) use.
\<close>

definition is_space :: "nat \<Rightarrow> bool" where
  "is_space c =
     ((9 \<le> c \<and> c \<le> 13) \<or> (28 \<le> c \<and> c \<le> 32) \<or> c = 133 \<or> c = 160 \<or> c = 5760
      \<or> (8192 \<le> c \<and> c \<le> 8202) \<or> c = 8232 \<or> c = 8233 \<or> c = 8239 \<or> c = 8287
      \<or> c = 12288)"

text \<open>\<open>s.strip()\<close>: whitespace removed at both ends.\<close>

definition strip :: "ustr \<Rightarrow> ustr" where
  "strip s = rev (dropWhile is_space (rev (dropWhile is_space s)))"

text \<open>
  \<open>s.lower()\<close>. ASCII capitals are lowered; of the code points beyond ASCII the two whose
  lowercase contains an ASCII letter are lowered as Python does (U+0130 to \<open>i\<close> followed by
  U+0307, U+212A to \<open>k\<close>). Every other code point beyond ASCII is left as it is: Python maps
  it to code points beyond ASCII again, which none of the ASCII keyword tests of this program
  can tell apart.
\<close>

definition lower_cp :: "nat \<Rightarrow> ustr" where
  "lower_cp c =
     (if 65 \<le> c \<and> c \<le> 90 then [c + 32]
      else if c = 304 then [105, 775]
      else if c = 8490 then [107]
      else [c])"

definition lower :: "ustr \<Rightarrow> ustr" where
  "lower s = concat (map lower_cp s)"

text \<open>\<open>w in s\<close> for strings: \<open>w\<close> occurs in \<open>s\<close> as a contiguous run.\<close>

fun str_in :: "ustr \<Rightarrow> ustr \<Rightarrow> bool" where
  "str_in w [] = (w = [])"
| "str_in w (c # cs) = (prefix w (c # cs) \<or> str_in w cs)"

text \<open>\<open>s.find(w)\<close>: the lowest index at which \<open>w\<close> occurs, \<open>-1\<close> when it does not.\<close>

fun str_find :: "ustr \<Rightarrow> ustr \<Rightarrow> int" where
  "str_find w [] = (if w = [] then 0 else - 1)"
| "str_find w (c # cs) =
     (if prefix w (c # cs) then 0
      else (let r = str_find w cs in if r = - 1 then - 1 else r + 1))"

text \<open>\<open>s.rfind(w)\<close>: the highest index at which \<open>w\<close> occurs, \<open>-1\<close> when it does not.\<close>

fun str_rfind :: "ustr \<Rightarrow> ustr \<Rightarrow> int" where
  "str_rfind w [] = (if w = [] then 0 else - 1)"
| "str_rfind w (c # cs) =
     (let r = str_rfind w cs in
      if r \<noteq> - 1 then r + 1 else if prefix w (c # cs) then 0 else - 1)"

text \<open>
  \<open>s[a:b]\<close> for bounds that are not negative (the program only slices with positions that
  \<open>find\<close> and \<open>rfind\<close> returned and that it has compared with \<open>-1\<close>). An end before the
  start gives the empty string, as in Python.
\<close>

definition slice :: "ustr \<Rightarrow> int \<Rightarrow> int \<Rightarrow> ustr" where
  "slice s a b = drop (nat a) (take (nat b) s)"

section \<open>The regular expressions of the program\<close>

text \<open>
  The patterns of \<open>utils.py\<close> are sequences of literal characters, character classes,
  starred or plussed character classes (greedy \<open>*\<close>, \<open>+\<close> and lazy \<open>*?\<close>) and capture groups
  that are not nested. \<open>re_match\<close> is the backtracking matcher of Python's \<open>re\<close> on that
  fragment: a greedy repetition tries the longest run first and gives characters back one by
  one, a lazy one tries the shortest first. A \<open>Mark\<close> stands where a group opens or closes;
  the matcher returns the input left at every mark, in order, and the input left after the
  whole match.
\<close>

datatype quant = Greedy | Lazy

datatype atom =
    Chr nat
  | ChrI nat
  | One "nat \<Rightarrow> bool"
  | Rep quant "nat \<Rightarrow> bool"
  | Mark

text \<open>
  A literal under \<open>re.IGNORECASE\<close>: the pattern's character is lower case; a text character
  matches when its simple lowercase is the pattern's character or one of its case-folding
  equivalents (U+0130 and U+0131 for \<open>i\<close>, U+017F for \<open>s\<close>, U+212A for \<open>k\<close>).
\<close>

definition ci_eq :: "nat \<Rightarrow> nat \<Rightarrow> bool" where
  "ci_eq p x =
     (x = p \<or> (97 \<le> p \<and> p \<le> 122 \<and> x + 32 = p)
      \<or> (p = 105 \<and> (x = 304 \<or> x = 305)) \<or> (p = 115 \<and> x = 383) \<or> (p = 107 \<and> x = 8490))"

fun re_match :: "atom list \<Rightarrow> ustr \<Rightarrow> (ustr list \<times> ustr) option" where
  "re_match [] s = Some ([], s)"
| "re_match (Chr c # ps) s =
     (case s of [] \<Rightarrow> None | x # xs \<Rightarrow> if x = c then re_match ps xs else None)"
| "re_match (ChrI c # ps) s =
     (case s of [] \<Rightarrow> None | x # xs \<Rightarrow> if ci_eq c x then re_match ps xs else None)"
| "re_match (One p # ps) s =
     (case s of [] \<Rightarrow> None | x # xs \<Rightarrow> if p x then re_match ps xs else None)"
| "re_match (Mark # ps) s =
     (case re_match ps s of None \<Rightarrow> None | Some (ms, r) \<Rightarrow> Some (s # ms, r))"
| "re_match (Rep Greedy p # ps) s =
     (case s of
        [] \<Rightarrow> re_match ps []
      | x # xs \<Rightarrow>
          if p x then
            (case re_match (Rep Greedy p # ps) xs of
               Some r \<Rightarrow> Some r
             | None \<Rightarrow> re_match ps (x # xs))
          else re_match ps (x # xs))"
| "re_match (Rep Lazy p # ps) s =
     (case re_match ps s of
        Some r \<Rightarrow> Some r
      | None \<Rightarrow>
          (case s of
             [] \<Rightarrow> None
           | x # xs \<Rightarrow> if p x then re_match (Rep Lazy p # ps) xs else None))"

text \<open>\<open>re.search\<close>: the match at the leftmost position that has one.\<close>

fun re_search :: "atom list \<Rightarrow> ustr \<Rightarrow> (ustr list \<times> ustr) option" where
  "re_search ps [] = re_match ps []"
| "re_search ps (c # cs) =
     (case re_match ps (c # cs) of Some r \<Rightarrow> Some r | None \<Rightarrow> re_search ps cs)"

text \<open>
  The text between two marks: what is left at the opening mark, cut where the closing mark
  stands. \<open>groups\<close> pairs the marks of a finished match into the captured groups
  (\<open>match.group(1)\<close>, \<open>match.group(2)\<close>, ...).
\<close>

definition between :: "ustr \<Rightarrow> ustr \<Rightarrow> ustr" where
  "between a b = take (length a - length b) a"

fun groups :: "ustr list \<Rightarrow> ustr list" where
  "groups (a # b # ms) = between a b # groups ms"
| "groups _ = []"

text \<open>
  Literal text of a pattern: \<open>lit\<close> as it stands, \<open>liti\<close> under \<open>re.IGNORECASE\<close> (the
  pattern's own capitals are lowered first). \<open>any_char\<close> is \<open>.\<close> under \<open>re.DOTALL\<close>,
  \<open>not_in cs\<close> the class \<open>[^...]\<close>, \<open>one_of cs\<close> the class \<open>[...]\<close>; \<open>plus p\<close> is \<open>p+\<close>.
\<close>

definition lit :: "string \<Rightarrow> atom list" where
  "lit s = map (\<lambda>c. Chr (of_char c)) s"

definition lower_ascii :: "nat \<Rightarrow> nat" where
  "lower_ascii c = (if 65 \<le> c \<and> c \<le> 90 then c + 32 else c)"

definition liti :: "string \<Rightarrow> atom list" where
  "liti s = map (\<lambda>c. ChrI (lower_ascii (of_char c))) s"

definition any_char :: "nat \<Rightarrow> bool" where
  "any_char c = True"

definition not_in :: "nat list \<Rightarrow> nat \<Rightarrow> bool" where
  "not_in cs c = (c \<notin> set cs)"

definition one_of :: "nat list \<Rightarrow> nat \<Rightarrow> bool" where
  "one_of cs c = (c \<in> set cs)"

definition plus :: "(nat \<Rightarrow> bool) \<Rightarrow> atom list" where
  "plus p = [One p, Rep Greedy p]"

text \<open>
  \<open>re.sub(pattern, repl, s)\<close> and \<open>re.findall(pattern, s)\<close> walk the text from the left,
  take the leftmost match, and go on behind it. The patterns this program passes to them
  never match the empty string; the test that a match has consumed something is what makes
  the recursion end, and its other branch is not reached by those patterns.
\<close>

function re_sub :: "atom list \<Rightarrow> ustr \<Rightarrow> ustr \<Rightarrow> ustr" where
  "re_sub ps repl s =
     (case s of
        [] \<Rightarrow> []
      | c # cs \<Rightarrow>
          (case re_match ps (c # cs) of
             None \<Rightarrow> c # re_sub ps repl cs
           | Some (ms, r) \<Rightarrow>
               if length r < length (c # cs) then repl @ re_sub ps repl r
               else c # re_sub ps repl cs))"
  by pat_completeness auto
termination
  by (relation "measure (\<lambda>(ps, repl, s). length s)") auto

function re_findall :: "atom list \<Rightarrow> ustr \<Rightarrow> ustr list list" where
  "re_findall ps s =
     (case s of
        [] \<Rightarrow> []
      | c # cs \<Rightarrow>
          (case re_match ps (c # cs) of
             None \<Rightarrow> re_findall ps cs
           | Some (ms, r) \<Rightarrow>
               if length r < length (c # cs) then groups ms # re_findall ps r
               else re_findall ps cs))"
  by pat_completeness auto
termination
  by (relation "measure (\<lambda>(ps, s). length s)") auto

section \<open>HTMLExtractor.extract\_html\_from\_response\<close>

text \<open>The four code-block patterns, each searched with \<open>re.DOTALL\<close>, in the source's order.\<close>

definition fence_patterns :: "atom list list" where
  "fence_patterns =
     [lit ''```html\<newline>'' @ [Mark, Rep Lazy any_char, Mark] @ lit ''\<newline>```'',
      lit ''```html'' @ [Mark, Rep Lazy any_char, Mark] @ lit ''```'',
      lit ''```\<newline>'' @ [Mark] @ lit ''<!DOCTYPE'' @ [Rep Lazy any_char] @ lit ''</html>''
        @ [Mark] @ lit ''\<newline>```'',
      lit ''```'' @ [Mark] @ lit ''<!DOCTYPE'' @ [Rep Lazy any_char] @ lit ''</html>''
        @ [Mark] @ lit ''```'']"

text \<open>
  \<open>for pattern in patterns: match = re.search(...); if match: ...\<close>: the groups of the
  first pattern that matches, the patterns behind it left untried.
\<close>

fun first_match :: "atom list list \<Rightarrow> ustr \<Rightarrow> ustr list option" where
  "first_match [] text = None"
| "first_match (p # ps) text =
     (case re_search p text of
        Some (ms, r) \<Rightarrow> Some (groups ms)
      | None \<Rightarrow> first_match ps text)"

text \<open>
  The loop over the start markers keeps the lowest position found; the loop over the end
  markers stops (\<open>break\<close>) at the first marker that occurs at all.
\<close>

fun find_start :: "ustr list \<Rightarrow> ustr \<Rightarrow> int \<Rightarrow> int" where
  "find_start [] text start_pos = start_pos"
| "find_start (marker # ms) text start_pos =
     (let pos = str_find marker text in
      if pos \<noteq> - 1 \<and> (start_pos = - 1 \<or> pos < start_pos) then find_start ms text pos
      else find_start ms text start_pos)"

fun find_end :: "ustr list \<Rightarrow> ustr \<Rightarrow> int" where
  "find_end [] text = - 1"
| "find_end (marker # ms) text =
     (let pos = str_rfind marker text in
      if pos \<noteq> - 1 then pos + int (length marker) else find_end ms text)"

definition start_markers :: "ustr list" where
  "start_markers = [uni ''<!DOCTYPE'', uni ''<html'', uni ''<HTML'']"

definition end_markers :: "ustr list" where
  "end_markers = [uni ''</html>'', uni ''</HTML>'']"

text \<open>
  The result is \<open>None\<close> where the source returns \<open>None\<close>. No operation of the body raises
  on a string, except \<open>match.group(1)\<close> on a match without a group, which the \<open>except\<close>
  branch would turn into \<open>None\<close> as well.
\<close>

definition extract_html_from_response :: "ustr \<Rightarrow> ustr option" where
  "extract_html_from_response text =
     (case first_match fence_patterns text of
        Some gs \<Rightarrow> (case gs of [] \<Rightarrow> None | g # _ \<Rightarrow> Some (strip g))
      | None \<Rightarrow>
          if str_in (uni ''<!DOCTYPE'') text \<or> str_in (uni ''<html'') (lower text) then
            (let start_pos = find_start start_markers text (- 1) in
             if start_pos \<noteq> - 1 then
               (let end_pos = find_end end_markers text in
                if end_pos \<noteq> - 1 then Some (strip (slice text start_pos end_pos)) else None)
             else None)
          else None)"

section \<open>EmailComponentExtractor\<close>

text \<open>The components are a Python dictionary from field names to strings.\<close>

type_synonym components = "string \<rightharpoonup> ustr"

definition default_components :: components where
  "default_components =
     [''subject'' \<mapsto> uni ''Generated Phishing Email'',
      ''sender_name'' \<mapsto> uni ''Security Team'',
      ''sender_email'' \<mapsto> uni ''security@example.com'']"

text \<open>The subject patterns are searched with \<open>re.IGNORECASE | re.DOTALL\<close>.\<close>

definition subject_patterns :: "atom list list" where
  \<open>subject_patterns =
     [liti ''<title'' @ [Rep Greedy (not_in [62]), Chr 62, Mark, Rep Lazy any_char, Mark]
        @ liti ''</title>'',
      liti ''<!--'' @ [Rep Greedy is_space] @ liti ''Subject:'' @ [Rep Greedy is_space, Mark]
        @ plus (not_in [45]) @ [Mark, Rep Greedy is_space] @ liti ''-->'',
      liti ''<meta'' @ plus is_space @ liti ''name='' @ [One (one_of [39, 34])] @ liti ''subject''
        @ [One (one_of [39, 34]), Rep Greedy (not_in [62])] @ liti ''content=''
        @ [One (one_of [39, 34]), Mark] @ plus (not_in [39, 34]) @ [Mark, One (one_of [39, 34])]]\<close>

definition tag_pattern :: "atom list" where
  "tag_pattern = [Chr 60] @ plus (not_in [62]) @ [Chr 62]"

text \<open>The sender patterns are searched without flags.\<close>

definition sender_patterns :: "atom list list" where
  "sender_patterns =
     [lit ''<!--'' @ [Rep Greedy is_space] @ lit ''From:'' @ [Rep Greedy is_space, Mark]
        @ plus (not_in [60]) @ [Mark, Rep Greedy is_space, Chr 60, Mark] @ plus (not_in [62])
        @ [Mark, Chr 62, Rep Greedy is_space] @ lit ''-->'',
      lit ''<!--'' @ [Rep Greedy is_space] @ lit ''Sender:'' @ [Rep Greedy is_space, Mark]
        @ plus (not_in [60]) @ [Mark, Rep Greedy is_space, Chr 60, Mark] @ plus (not_in [62])
        @ [Mark, Chr 62, Rep Greedy is_space] @ lit ''-->'',
      lit ''<!--'' @ [Rep Greedy is_space] @ lit ''From:'' @ [Rep Greedy is_space, Mark]
        @ plus (not_in [60]) @ [Mark, Chr 60, Mark] @ plus (not_in [62])
        @ [Mark, Chr 62, Rep Greedy is_space] @ lit ''-->'',
      lit ''From:'' @ [Rep Greedy is_space, Mark] @ plus (not_in [60])
        @ [Mark, Rep Greedy is_space, Chr 60, Mark] @ plus (not_in [62]) @ [Mark, Chr 62]]"

text \<open>
  \<open>_generate_realistic_sender\<close>: the first keyword group with a keyword in the lowered
  document gives the sender; the \<open>else\<close> of the \<open>for\<close> loop gives the generic one.
\<close>

definition industry_mappings :: "(ustr list \<times> ustr \<times> ustr) list" where
  "industry_mappings =
     [([uni ''bank'', uni ''account'', uni ''financial'', uni ''credit''],
        uni ''Security Department'', uni ''security@fake-firstnational-bank.com''),
      ([uni ''health'', uni ''medical'', uni ''patient'', uni ''clinic''],
        uni ''Patient Services'', uni ''admin@fake-healthsystems.org''),
      ([uni ''order'', uni ''shipping'', uni ''delivery'', uni ''purchase''],
        uni ''Customer Service'', uni ''orders@fake-retailservices.com''),
      ([uni ''microsoft'', uni ''google'', uni ''tech'', uni ''software'', uni ''cloud''],
        uni ''Account Security'', uni ''noreply@fake-techsupport.com''),
      ([uni ''government'', uni ''irs'', uni ''tax'', uni ''official''],
        uni ''Official Notice'', uni ''notifications@fake-government-alerts.gov''),
      ([uni ''education'', uni ''university'', uni ''student'', uni ''academic''],
        uni ''IT Services'', uni ''support@fake-university-systems.edu''),
      ([uni ''insurance'', uni ''policy'', uni ''claim'', uni ''premium''],
        uni ''Claims Department'', uni ''claims@fake-insurance-services.com'')]"

fun pick_industry :: "(ustr list \<times> ustr \<times> ustr) list \<Rightarrow> ustr \<Rightarrow> ustr \<times> ustr" where
  "pick_industry [] content_lower = (uni ''Support Team'', uni ''support@fake-secureservices.net'')"
| "pick_industry ((keywords, name, email) # rest) content_lower =
     (if list_ex (\<lambda>word. str_in word content_lower) keywords then (name, email)
      else pick_industry rest content_lower)"

definition generate_realistic_sender :: "ustr \<Rightarrow> components \<Rightarrow> components" where
  "generate_realistic_sender html_content components =
     (let content_lower = lower html_content;
          (name, email) = pick_industry industry_mappings content_lower
      in components(''sender_name'' \<mapsto> name, ''sender_email'' \<mapsto> email))"

text \<open>
  \<open>extract_email_components\<close>. Each loop stops at its first matching pattern. A match whose
  groups were missing would raise, and the \<open>except\<close> branch returns the components as they
  stand then; the patterns above always carry their groups, so that branch is never taken.
\<close>

definition set_subject :: "ustr \<Rightarrow> components \<Rightarrow> components option" where
  "set_subject html_content components =
     (case first_match subject_patterns html_content of
        None \<Rightarrow> Some components
      | Some gs \<Rightarrow>
          (case gs of
             [] \<Rightarrow> None
           | g # _ \<Rightarrow>
               Some (components(''subject'' \<mapsto> take 100 (re_sub tag_pattern [] (strip g))))))"

definition set_sender :: "ustr \<Rightarrow> components \<Rightarrow> components option" where
  "set_sender html_content components =
     (case first_match sender_patterns html_content of
        None \<Rightarrow> Some components
      | Some gs \<Rightarrow>
          (case gs of
             g1 # g2 # _ \<Rightarrow>
               Some (components(''sender_name'' \<mapsto> strip g1, ''sender_email'' \<mapsto> strip g2))
           | _ \<Rightarrow> None))"

definition extract_email_components :: "ustr \<Rightarrow> components" where
  "extract_email_components html_content =
     (case set_subject html_content default_components of
        None \<Rightarrow> default_components
      | Some c1 \<Rightarrow>
          (case set_sender html_content c1 of
             None \<Rightarrow> c1
           | Some c2 \<Rightarrow>
               if c2 ''sender_email'' = Some (uni ''security@example.com'')
               then generate_realistic_sender html_content c2
               else c2))"

section \<open>ContentAnalyzer.calculate\_word\_count\<close>

text \<open>
  \<open>text.split()\<close>: the maximal runs of characters that are not whitespace. The first
  argument of \<open>split_ws\<close> is the word being read, reversed.
\<close>

fun split_ws :: "ustr \<Rightarrow> ustr \<Rightarrow> ustr list" where
  "split_ws cur [] = (if cur = [] then [] else [rev cur])"
| "split_ws cur (c # cs) =
     (if is_space c then (if cur = [] then split_ws [] cs else rev cur # split_ws [] cs)
      else split_ws (c # cur) cs)"

definition calculate_word_count :: "ustr \<Rightarrow> int" where
  "calculate_word_count html_content =
     (let text = re_sub tag_pattern (uni '' '') html_content;
          text = strip (re_sub (plus is_space) (uni '' '') text);
          words = split_ws [] text
      in int (length words))"

section \<open>prompts.py: PhishingPrompts.get\_fallback\_sender\_info\<close>

definition industry_senders :: "(ustr \<times> ustr \<times> ustr) list" where
  "industry_senders =
     [(uni ''Banking'', uni ''Security Department'', uni ''security@fake-firstnational-alerts.com''),
      (uni ''Healthcare'', uni ''Patient Services'', uni ''admin@fake-healthpartners.org''),
      (uni ''Online Retail'', uni ''Customer Service'', uni ''orders@fake-ecommerce-orders.com''),
      (uni ''Technology'', uni ''Account Security'', uni ''noreply@fake-techsupport.com''),
      (uni ''Government'', uni ''Official Notice'', uni ''notifications@fake-government-alerts.gov''),
      (uni ''Education'', uni ''IT Services'', uni ''support@fake-university-systems.edu''),
      (uni ''Insurance'', uni ''Claims Department'', uni ''claims@fake-insurance-services.com''),
      (uni ''Retail'', uni ''Customer Support'', uni ''service@fake-retailsupport.net''),
      (uni ''Cloud Service'', uni ''Security Team'', uni ''alerts@fake-cloudsecurity.org''),
      (uni ''Social Media'', uni ''Account Safety'', uni ''security@fake-socialmedia.com''),
      (uni ''Shipping Company'', uni ''Delivery Notice'', uni ''tracking@fake-shipping.com'')]"

definition get_fallback_sender_info :: "ustr \<Rightarrow> ustr \<times> ustr" where
  "get_fallback_sender_info industry =
     (case map_of industry_senders industry of
        Some sender \<Rightarrow> sender
      | None \<Rightarrow> (uni ''Support Team'', uni ''support@fake-secureservices.net''))"

section \<open>TemplateGenerator.create\_fallback\_template\<close>

text \<open>
  The f-string of the source, as the list of its pieces in order: the literal text line by
  line (\<open>nl\<close> is the line break; characters beyond ASCII are given by their code points)
  and the interpolated fields. The literal text is cut where a field stands and, for the
  sender comment and the link, where the text that the extraction reads begins and ends.
  The document is the concatenation of the pieces.
\<close>

definition nl :: ustr where
  "nl = [10]"

definition fb_head :: "ustr \<Rightarrow> ustr list" where
  \<open>fb_head scenario_type =
     [uni ''<!DOCTYPE html>'', nl,
      uni ''<html lang="en">'', nl,
      uni ''<head>'', nl,
      uni ''    <meta charset="UTF-8">'', nl,
      uni ''    <meta name="viewport" content="width=device-width, initial-scale=1.0">'', nl,
      uni ''    <title>Urgent: '', scenario_type, uni '' Required</title>'', nl,
      uni ''    <style>'', nl,
      uni ''        body { '', nl,
      uni ''            font-family: 'Segoe UI', Tahoma, Geneva, Verdana, sans-serif; '', nl,
      uni ''            margin: 0; '', nl,
      uni ''            padding: 20px; '', nl,
      uni ''            background-color: #f5f5f5; '', nl,
      uni ''            line-height: 1.6;'', nl,
      uni ''        }'', nl,
      uni ''        .container { '', nl,
      uni ''            max-width: 600px; '', nl,
      uni ''            margin: 0 auto; '', nl,
      uni ''            background: white; '', nl,
      uni ''            padding: 0; '', nl,
      uni ''            border-radius: 8px; '', nl,
      uni ''            box-shadow: 0 2px 10px rgba(0,0,0,0.1);'', nl,
      uni ''        }'', nl,
      uni ''        .header { '', nl,
      uni ''            background: linear-gradient(135deg, #1f4e79 0%, #2c5aa0 100%); '', nl,
      uni ''            color: white; '', nl,
      uni ''            padding: 20px; '', nl,
      uni ''            text-align: center; '', nl,
      uni ''            border-radius: 8px 8px 0 0;'', nl,
      uni ''        }'', nl,
      uni ''        .content {'', nl,
      uni ''            padding: 30px;'', nl,
      uni ''        }'', nl,
      uni ''        .alert-box {'', nl,
      uni ''            background-color: #fff3cd;'', nl,
      uni ''            border-left: 4px solid #ffc107;'', nl,
      uni ''            padding: 15px;'', nl,
      uni ''            margin: 20px 0;'', nl,
      uni ''            border-radius: 4px;'', nl,
      uni ''        }'', nl,
      uni ''        .button { '', nl,
      uni ''            display: inline-block;'', nl,
      uni ''            background: linear-gradient(135deg, #dc3545 0%, #c82333 100%); '', nl,
      uni ''            color: white; '', nl,
      uni ''            padding: 14px 28px; '', nl,
      uni ''            text-decoration: none; '', nl,
      uni ''            border-radius: 6px; '', nl,
      uni ''            font-weight: bold;'', nl,
      uni ''            margin: 20px 0;'', nl,
      uni ''            box-shadow: 0 2px 4px rgba(0,0,0,0.2);'', nl,
      uni ''            transition: all 0.3s ease;'', nl,
      uni ''        }'', nl,
      uni ''        .button:hover {'', nl,
      uni ''            background: linear-gradient(135deg, #c82333 0%, #a71e2a 100%);'', nl,
      uni ''            transform: translateY(-2px);'', nl,
      uni ''        }'', nl,
      uni ''        .footer { '', nl,
      uni ''            background-color: #f8f9fa;'', nl,
      uni ''            padding: 20px; '', nl,
      uni ''            text-align: center; '', nl,
      uni ''            font-size: 12px; '', nl,
      uni ''            color: #6c757d;'', nl,
      uni ''            border-radius: 0 0 8px 8px;'', nl,
      uni ''            border-top: 1px solid #dee2e6;'', nl,
      uni ''        }'', nl,
      uni ''        .urgent {'', nl,
      uni ''            color: #dc3545;'', nl,
      uni ''            font-weight: bold;'', nl,
      uni ''        }'', nl,
      uni ''        .company-logo {'', nl,
      uni ''            font-size: 24px;'', nl,
      uni ''            font-weight: bold;'', nl,
      uni ''            margin-bottom: 5px;'', nl,
      uni ''        }'', nl,
      uni ''    </style>'', nl,
      uni ''</head>'', nl,
      uni ''<body>'', nl,
      uni ''    '']\<close>

definition fb_from :: "ustr \<Rightarrow> ustr \<Rightarrow> ustr list" where
  \<open>fb_from sender_name sender_email =
     [uni ''<!-- From: '', sender_name, uni '' <'', sender_email, uni ''> -->'', nl]\<close>

definition fb_notice :: "ustr list" where
  \<open>fb_notice =
     [uni ''    <!-- For training only '', [8211], uni '' not a real phishing email -->'', nl]\<close>

definition fb_body :: "ustr \<Rightarrow> ustr \<Rightarrow> ustr list" where
  \<open>fb_body target_industry scenario_type =
     [uni ''    '', nl,
      uni ''    <div class="container">'', nl,
      uni ''        <div class="header">'', nl,
      uni ''            <div class="company-logo">'', target_industry, uni ''</div>'', nl,
      uni ''            <p>Security & Compliance Department</p>'', nl,
      uni ''        </div>'', nl,
      uni ''        '', nl,
      uni ''        <div class="content">'', nl,
      uni ''            <h2 class="urgent">'', [9888, 65039], uni '' Urgent: '', scenario_type, uni '' Required</h2>'', nl,
      uni ''            '', nl,
      uni ''            <p>Dear Valued Customer,</p>'', nl,
      uni ''            '', nl,
      uni ''            <p>We have detected unusual activity on your account that requires immediate verification. '', nl,
      uni ''            To protect your account security and maintain compliance with our security policies, '', nl,
      uni ''            please take action within the next <strong>24 hours</strong>.</p>'', nl,
      uni ''            '', nl,
      uni ''            <div class="alert-box">'', nl,
      uni ''                <strong>'', [128274], uni '' Security Notice:</strong> Your account access has been temporarily restricted '', nl,
      uni ''                due to suspicious activity detected from an unrecognized device.'', nl,
      uni ''            </div>'', nl,
      uni ''            '', nl,
      uni ''            <p><strong>Action Required:</strong> Click the button below to verify your account information '', nl,
      uni ''            and restore full access to your services.</p>'', nl,
      uni ''            '', nl,
      uni ''            <div style="text-align: center;">'', nl,
      uni ''                <a '']\<close>

definition fb_link :: "ustr \<Rightarrow> ustr list" where
  \<open>fb_link slug =
     [uni ''href="'', uni ''http://fake-'', slug, uni ''-verification.com/verify'', uni ''"'']\<close>

definition fb_tail :: "ustr \<Rightarrow> ustr \<Rightarrow> ustr list" where
  \<open>fb_tail sender_name target_industry =
     [uni '' class="button">'', nl,
      uni ''                    '', [128272], uni '' Verify Account Now'', nl,
      uni ''                </a>'', nl,
      uni ''            </div>'', nl,
      uni ''            '', nl,
      uni ''            <p><strong class="urgent">Important:</strong> If you do not complete this verification '', nl,
      uni ''            within 24 hours, your account may be permanently suspended for security reasons.</p>'', nl,
      uni ''            '', nl,
      uni ''            <p>This verification process is mandatory and must be completed to ensure the safety '', nl,
      uni ''            of your personal information and account assets.</p>'', nl,
      uni ''            '', nl,
      uni ''            <p>Thank you for your immediate attention to this critical security matter.</p>'', nl,
      uni ''            '', nl,
      uni ''            <p>Best regards,<br>'', nl,
      uni ''            <strong>'', sender_name, uni ''</strong><br>'', nl,
      uni ''            '', target_industry, uni '' Security Team</p>'', nl,
      uni ''        </div>'', nl,
      uni ''        '', nl,
      uni ''        <div class="footer">'', nl,
      uni ''            <p>This is an automated security message. Please do not reply to this email.</p>'', nl,
      uni ''            <p>'', target_industry, uni '' | Security Department | Compliance Division</p>'', nl,
      uni ''            <p>'', [169], uni '' 2024 '', target_industry, uni ''. All rights reserved.</p>'', nl,
      uni ''            <hr style="border: none; border-top: 1px solid #dee2e6; margin: 15px 0;">'', nl,
      uni ''            <p><em><strong>Training Notice:</strong> This is a simulated phishing email for cybersecurity training purposes only.</em></p>'', nl,
      uni ''        </div>'', nl,
      uni ''    </div>'', nl,
      uni ''</body>'', nl,
      uni ''</html>'']\<close>

text \<open>\<open>request_data.get(key, default)\<close>.\<close>

definition dict_get :: "(string \<rightharpoonup> ustr) \<Rightarrow> string \<Rightarrow> ustr \<Rightarrow> ustr" where
  "dict_get d k dflt = (case d k of Some v \<Rightarrow> v | None \<Rightarrow> dflt)"

text \<open>\<open>target_industry.lower().replace(' ', '')\<close>.\<close>

definition slug_of :: "ustr \<Rightarrow> ustr" where
  "slug_of target_industry = filter (\<lambda>c. c \<noteq> 32) (lower target_industry)"

definition create_fallback_template :: "(string \<rightharpoonup> ustr) \<Rightarrow> ustr" where
  "create_fallback_template request_data =
     (let (sender_name, sender_email) =
            get_fallback_sender_info (dict_get request_data ''target_industry'' (uni ''Technology''));
          scenario_type = dict_get request_data ''scenario_type'' (uni ''Security Alert'');
          target_industry = dict_get request_data ''target_industry'' (uni ''Technology'')
      in concat
           (fb_head scenario_type @ fb_from sender_name sender_email @ fb_notice
            @ fb_body target_industry scenario_type @ fb_link (slug_of target_industry)
            @ fb_tail sender_name target_industry))"

section \<open>ValidationHelper.validate\_html\_safety\<close>

text \<open>
  The issues are kept as data: each constructor stands for one of the three message texts
  of the source and carries what the message interpolates.
\<close>

datatype issue =
    Missing_training_disclaimer
  | Potentially_real_urls "ustr list"
  | Real_company ustr

text \<open>The pattern \<open>href=["\']([^"\']+)["\']\<close>, used with \<open>re.IGNORECASE\<close>.\<close>

definition url_pattern :: "atom list" where
  "url_pattern =
     liti ''href='' @ [One (one_of [34, 39]), Mark] @ plus (not_in [34, 39])
       @ [Mark, One (one_of [34, 39])]"

definition fake_markers :: "ustr list" where
  "fake_markers = [uni ''fake-'', uni ''phishing-'', uni ''test-'', uni ''training-'']"

definition real_companies :: "ustr list" where
  "real_companies =
     [uni ''microsoft.com'', uni ''google.com'', uni ''amazon.com'', uni ''apple.com'',
      uni ''facebook.com'']"

definition first_group :: "ustr list \<Rightarrow> ustr" where
  "first_group gs = (case gs of [] \<Rightarrow> [] | g # _ \<Rightarrow> g)"

definition validate_html_safety :: "ustr \<Rightarrow> bool \<times> issue list" where
  "validate_html_safety html_content =
     (let issues1 =
            (if \<not> str_in (uni ''For training only'') html_content
             then [Missing_training_disclaimer] else []);
          urls = map first_group (re_findall url_pattern html_content);
          real_domains =
            filter (\<lambda>url. \<not> list_ex (\<lambda>fake. str_in fake (lower url)) fake_markers) urls;
          issues2 = (if real_domains \<noteq> [] then [Potentially_real_urls real_domains] else []);
          issues3 =
            map Real_company
              (filter (\<lambda>company. str_in company (lower html_content)) real_companies);
          issues = issues1 @ issues2 @ issues3
      in (issues = [], issues))"

section \<open>utils.py: RateLimiter\<close>

record RateLimiter =
  max_requests :: int
  time_window :: int
  requests :: "ustr \<rightharpoonup> real list"

text \<open>\<open>RateLimiter(max_requests, time_window)\<close>: no client has a recorded request yet.\<close>

definition new_rate_limiter :: "int \<Rightarrow> int \<Rightarrow> RateLimiter" where
  "new_rate_limiter m w = \<lparr>max_requests = m, time_window = w, requests = Map.empty\<rparr>"

text \<open>\<open>is_allowed\<close>; \<open>now\<close> is what \<open>time.time()\<close> returns in this call.\<close>

definition is_allowed :: "RateLimiter \<Rightarrow> ustr \<Rightarrow> real \<Rightarrow> bool \<times> RateLimiter" where
  "is_allowed rl client_id now =
     (let window_start = now - real_of_int (time_window rl);
          kept = (case requests rl client_id of
                    Some ts \<Rightarrow> filter (\<lambda>req_time. req_time > window_start) ts
                  | None \<Rightarrow> [])
      in if int (length kept) \<ge> max_requests rl
         then (False, rl\<lparr>requests := (requests rl)(client_id \<mapsto> kept)\<rparr>)
         else (True, rl\<lparr>requests := (requests rl)(client_id \<mapsto> kept @ [now])\<rparr>))"

section \<open>models.py: the closed enumerations and the records\<close>

datatype ScenarioType =
    PASSWORD_RESET | INVOICE_OVERDUE | ACCOUNT_LOCK | PRIZE_NOTIFICATION
  | URGENT_DOCUMENT_REVIEW | SECURITY_ALERT | SYSTEM_MAINTENANCE | PAYMENT_FAILED

fun ScenarioType_value :: "ScenarioType \<Rightarrow> ustr" where
  "ScenarioType_value PASSWORD_RESET = uni ''Password Reset''"
| "ScenarioType_value INVOICE_OVERDUE = uni ''Invoice Overdue''"
| "ScenarioType_value ACCOUNT_LOCK = uni ''Account Lock''"
| "ScenarioType_value PRIZE_NOTIFICATION = uni ''Prize Notification''"
| "ScenarioType_value URGENT_DOCUMENT_REVIEW = uni ''Urgent Document Review''"
| "ScenarioType_value SECURITY_ALERT = uni ''Security Alert''"
| "ScenarioType_value SYSTEM_MAINTENANCE = uni ''System Maintenance''"
| "ScenarioType_value PAYMENT_FAILED = uni ''Payment Failed''"

datatype TargetIndustry =
    BANKING | ONLINE_RETAIL | CLOUD_SERVICE | SOCIAL_MEDIA | SHIPPING_COMPANY | HEALTHCARE
  | GOVERNMENT | EDUCATION | TECHNOLOGY | INSURANCE | RETAIL

fun TargetIndustry_value :: "TargetIndustry \<Rightarrow> ustr" where
  "TargetIndustry_value BANKING = uni ''Banking''"
| "TargetIndustry_value ONLINE_RETAIL = uni ''Online Retail''"
| "TargetIndustry_value CLOUD_SERVICE = uni ''Cloud Service''"
| "TargetIndustry_value SOCIAL_MEDIA = uni ''Social Media''"
| "TargetIndustry_value SHIPPING_COMPANY = uni ''Shipping Company''"
| "TargetIndustry_value HEALTHCARE = uni ''Healthcare''"
| "TargetIndustry_value GOVERNMENT = uni ''Government''"
| "TargetIndustry_value EDUCATION = uni ''Education''"
| "TargetIndustry_value TECHNOLOGY = uni ''Technology''"
| "TargetIndustry_value INSURANCE = uni ''Insurance''"
| "TargetIndustry_value RETAIL = uni ''Retail''"

datatype UrgencyLevel = NORMAL | HIGH

fun UrgencyLevel_value :: "UrgencyLevel \<Rightarrow> ustr" where
  "UrgencyLevel_value NORMAL = uni ''Normal''"
| "UrgencyLevel_value HIGH = uni ''High''"

datatype ToneStyle = FORMAL | CASUAL | URGENT | INFORMATIVE

fun ToneStyle_value :: "ToneStyle \<Rightarrow> ustr" where
  "ToneStyle_value FORMAL = uni ''Formal''"
| "ToneStyle_value CASUAL = uni ''Casual''"
| "ToneStyle_value URGENT = uni ''Urgent''"
| "ToneStyle_value INFORMATIVE = uni ''Informative''"

datatype Language = ENGLISH | SPANISH | FRENCH | GERMAN | CHINESE | JAPANESE

fun Language_value :: "Language \<Rightarrow> ustr" where
  "Language_value ENGLISH = uni ''English''"
| "Language_value SPANISH = uni ''Spanish''"
| "Language_value FRENCH = uni ''French''"
| "Language_value GERMAN = uni ''German''"
| "Language_value CHINESE = uni ''Chinese''"
| "Language_value JAPANESE = uni ''Japanese''"

datatype PhishingTactic =
    CREDENTIAL_HARVESTING | INVOICE_FRAUD | ACCOUNT_TAKEOVER | PRIZE_SCAM | TECH_SUPPORT
  | EXECUTIVE_IMPERSONATION

fun PhishingTactic_value :: "PhishingTactic \<Rightarrow> ustr" where
  "PhishingTactic_value CREDENTIAL_HARVESTING = uni ''credential_harvesting''"
| "PhishingTactic_value INVOICE_FRAUD = uni ''invoice_fraud''"
| "PhishingTactic_value ACCOUNT_TAKEOVER = uni ''account_takeover''"
| "PhishingTactic_value PRIZE_SCAM = uni ''prize_scam''"
| "PhishingTactic_value TECH_SUPPORT = uni ''tech_support''"
| "PhishingTactic_value EXECUTIVE_IMPERSONATION = uni ''executive_impersonation''"

text \<open>
  \<open>ScenarioType(s)\<close> and its siblings look a member up by its value and raise \<open>ValueError\<close>
  when there is none. The text of that error quotes the value; Python's escaping of quotes
  and control characters inside it is not modelled.
\<close>

definition enum_of :: "('e \<Rightarrow> ustr) \<Rightarrow> 'e list \<Rightarrow> string \<Rightarrow> ustr \<Rightarrow> ustr + 'e" where
  "enum_of val members cls s =
     (case find (\<lambda>e. val e = s) members of
        Some e \<Rightarrow> Inr e
      | None \<Rightarrow> Inl ([39] @ s @ [39] @ uni '' is not a valid '' @ uni cls))"

definition ScenarioType_of :: "ustr \<Rightarrow> ustr + ScenarioType" where
  "ScenarioType_of =
     enum_of ScenarioType_value
       [PASSWORD_RESET, INVOICE_OVERDUE, ACCOUNT_LOCK, PRIZE_NOTIFICATION,
        URGENT_DOCUMENT_REVIEW, SECURITY_ALERT, SYSTEM_MAINTENANCE, PAYMENT_FAILED]
       ''ScenarioType''"

definition TargetIndustry_of :: "ustr \<Rightarrow> ustr + TargetIndustry" where
  "TargetIndustry_of =
     enum_of TargetIndustry_value
       [BANKING, ONLINE_RETAIL, CLOUD_SERVICE, SOCIAL_MEDIA, SHIPPING_COMPANY, HEALTHCARE,
        GOVERNMENT, EDUCATION, TECHNOLOGY, INSURANCE, RETAIL]
       ''TargetIndustry''"

definition UrgencyLevel_of :: "ustr \<Rightarrow> ustr + UrgencyLevel" where
  "UrgencyLevel_of = enum_of UrgencyLevel_value [NORMAL, HIGH] ''UrgencyLevel''"

definition ToneStyle_of :: "ustr \<Rightarrow> ustr + ToneStyle" where
  "ToneStyle_of = enum_of ToneStyle_value [FORMAL, CASUAL, URGENT, INFORMATIVE] ''ToneStyle''"

definition Language_of :: "ustr \<Rightarrow> ustr + Language" where
  "Language_of =
     enum_of Language_value [ENGLISH, SPANISH, FRENCH, GERMAN, CHINESE, JAPANESE] ''Language''"

definition PhishingTactic_of :: "ustr \<Rightarrow> ustr + PhishingTactic" where
  "PhishingTactic_of =
     enum_of PhishingTactic_value
       [CREDENTIAL_HARVESTING, INVOICE_FRAUD, ACCOUNT_TAKEOVER, PRIZE_SCAM, TECH_SUPPORT,
        EXECUTIVE_IMPERSONATION]
       ''PhishingTactic''"

text \<open>
  The records keep the field names of \<open>models.py\<close>; where two records share a field name
  the fields of \<open>EmailTemplate\<close> carry the prefix \<open>t_\<close> and those of
  \<open>GenerationHistoryEntry\<close> the prefix \<open>h_\<close>. Times and durations (\<open>float\<close>,
  \<open>datetime\<close>) are real numbers.
\<close>

record PhishingRequest =
  scenario_type :: ScenarioType
  target_industry :: TargetIndustry
  urgency_level :: UrgencyLevel
  tone_style :: ToneStyle
  language :: Language
  phishing_tactic :: "PhishingTactic option"
  advanced_mode :: bool

record EmailTemplate =
  t_id :: ustr
  t_subject :: ustr
  t_sender_name :: ustr
  t_sender_email :: ustr
  t_html_content :: ustr
  t_scenario_type :: ustr
  t_target_industry :: ustr
  t_urgency_level :: ustr
  t_tone_style :: ustr
  t_language :: ustr
  t_created_at :: real
  t_phishing_tactic :: "ustr option"
  t_advanced_mode :: bool
  t_generation_time :: real
  t_word_count :: int

record GenerationResponse =
  success :: bool
  template :: "EmailTemplate option"
  error :: "ustr option"
  generation_time :: real

record GenerationHistoryEntry =
  h_timestamp :: real
  h_request :: PhishingRequest
  h_template_id :: "ustr option"
  h_success :: bool
  h_error :: "ustr option"
  h_generation_time :: real

section \<open>services.py\<close>

record TemplateService =
  templates :: "ustr \<rightharpoonup> EmailTemplate"
  generation_history :: "GenerationHistoryEntry list"

definition new_template_service :: TemplateService where
  "new_template_service = \<lparr>templates = Map.empty, generation_history = []\<rparr>"

definition get_template :: "TemplateService \<Rightarrow> ustr \<Rightarrow> EmailTemplate option" where
  "get_template svc template_id = templates svc template_id"

definition delete_template :: "TemplateService \<Rightarrow> ustr \<Rightarrow> bool \<times> TemplateService" where
  "delete_template svc template_id =
     (if template_id \<in> dom (templates svc)
      then (True, svc\<lparr>templates := (templates svc)(template_id := None)\<rparr>)
      else (False, svc))"

text \<open>
  What one call of \<open>generate_template\<close> reads from outside the program: the identifier that
  \<open>uuid.uuid4()\<close> draws, the clock (\<open>time.time()\<close> at the start and when the duration is
  taken, \<open>datetime.now()\<close> for the template and for the history entry), whether the
  Anthropic client is there (\<open>is_available\<close>), and what the call of the client does: it
  raises (\<open>Inl\<close>, with the text of the exception) or returns the response text (\<open>Inr\<close>).
  The prompt is built from fixed texts whose fields the request always supplies; it only
  reaches the client, so the client's outcome stands for both.
\<close>

record world =
  uuid4 :: ustr
  time_start :: real
  time_end :: real
  now_created :: real
  now_recorded :: real
  client_available :: bool
  client_reply :: "ustr + ustr"

text \<open>\<open>_record_generation_history\<close>: append, then keep the last \<open>max_history\<close> entries.\<close>

definition max_history :: nat where
  "max_history = 1000"

definition record_generation_history ::
  "TemplateService \<Rightarrow> PhishingRequest \<Rightarrow> ustr option \<Rightarrow> bool \<Rightarrow> ustr option \<Rightarrow> real \<Rightarrow> real
     \<Rightarrow> TemplateService" where
  "record_generation_history svc request template_id ok err gen_time now =
     (let history_entry =
            \<lparr>h_timestamp = now, h_request = request, h_template_id = template_id,
             h_success = ok, h_error = err, h_generation_time = gen_time\<rparr>;
          history = generation_history svc @ [history_entry]
      in svc\<lparr>generation_history :=
               (if length history > max_history
                then drop (length history - max_history) history
                else history)\<rparr>)"

text \<open>
  \<open>_validate_request\<close> raises \<open>ValueError\<close> when the scenario or the industry is falsy; a
  member of a string enumeration is falsy when its value is the empty string.
\<close>

definition validate_request :: "PhishingRequest \<Rightarrow> ustr + unit" where
  "validate_request request =
     (if ScenarioType_value (scenario_type request) = []
         \<or> TargetIndustry_value (target_industry request) = []
      then Inl (uni ''Scenario type and target industry are required'')
      else Inr ())"

text \<open>
  The construction of the \<open>EmailTemplate\<close>, shared by both paths. Reading a key that the
  components lack raises \<open>KeyError\<close>, whose text is the quoted key.
\<close>

definition component :: "components \<Rightarrow> string \<Rightarrow> ustr + ustr" where
  "component components key =
     (case components key of
        Some v \<Rightarrow> Inr v
      | None \<Rightarrow> Inl ([39] @ uni key @ [39]))"

definition make_template ::
  "world \<Rightarrow> PhishingRequest \<Rightarrow> ustr \<Rightarrow> components \<Rightarrow> ustr + EmailTemplate" where
  "make_template w request html_content components =
     (case component components ''subject'' of
        Inl e \<Rightarrow> Inl e
      | Inr subj \<Rightarrow>
     (case component components ''sender_name'' of
        Inl e \<Rightarrow> Inl e
      | Inr name \<Rightarrow>
     (case component components ''sender_email'' of
        Inl e \<Rightarrow> Inl e
      | Inr email \<Rightarrow>
          Inr \<lparr>t_id = uuid4 w,
               t_subject = subj,
               t_sender_name = name,
               t_sender_email = email,
               t_html_content = html_content,
               t_scenario_type = ScenarioType_value (scenario_type request),
               t_target_industry = TargetIndustry_value (target_industry request),
               t_urgency_level = UrgencyLevel_value (urgency_level request),
               t_tone_style = ToneStyle_value (tone_style request),
               t_language = Language_value (language request),
               t_created_at = now_created w,
               t_phishing_tactic = map_option PhishingTactic_value (phishing_tactic request),
               t_advanced_mode = advanced_mode request,
               t_generation_time = time_end w - time_start w,
               t_word_count = calculate_word_count html_content\<rparr>)))"

text \<open>Storing the template, recording the success and answering, as both paths do.\<close>

definition store_and_succeed ::
  "TemplateService \<Rightarrow> world \<Rightarrow> PhishingRequest \<Rightarrow> EmailTemplate
     \<Rightarrow> GenerationResponse \<times> TemplateService" where
  "store_and_succeed svc w request tpl =
     (let svc1 = svc\<lparr>templates := (templates svc)(uuid4 w \<mapsto> tpl)\<rparr>;
          svc2 = record_generation_history svc1 request (Some (uuid4 w)) True None
                   (time_end w - time_start w) (now_recorded w)
      in (\<lparr>success = True, template = Some tpl, error = None,
            generation_time = time_end w - time_start w\<rparr>, svc2))"

text \<open>The \<open>except\<close> branches: record the failure and answer with the error text.\<close>

definition fail_with ::
  "TemplateService \<Rightarrow> world \<Rightarrow> PhishingRequest \<Rightarrow> ustr \<Rightarrow> GenerationResponse \<times> TemplateService" where
  "fail_with svc w request error_msg =
     (\<lparr>success = False, template = None, error = Some error_msg,
       generation_time = time_end w - time_start w\<rparr>,
      record_generation_history svc request None False (Some error_msg)
        (time_end w - time_start w) (now_recorded w))"

definition request_dict :: "PhishingRequest \<Rightarrow> (string \<rightharpoonup> ustr)" where
  "request_dict request =
     [''scenario_type'' \<mapsto> ScenarioType_value (scenario_type request),
      ''target_industry'' \<mapsto> TargetIndustry_value (target_industry request),
      ''urgency_level'' \<mapsto> UrgencyLevel_value (urgency_level request),
      ''tone_style'' \<mapsto> ToneStyle_value (tone_style request)]"

definition handle_fallback_generation ::
  "TemplateService \<Rightarrow> world \<Rightarrow> PhishingRequest \<Rightarrow> GenerationResponse \<times> TemplateService" where
  "handle_fallback_generation svc w request =
     (let html_content = create_fallback_template (request_dict request);
          components = extract_email_components html_content
      in case make_template w request html_content components of
           Inr tpl \<Rightarrow> store_and_succeed svc w request tpl
         | Inl e \<Rightarrow> fail_with svc w request (uni ''Fallback generation failed: '' @ e))"

definition generate_template ::
  "TemplateService \<Rightarrow> world \<Rightarrow> PhishingRequest \<Rightarrow> GenerationResponse \<times> TemplateService" where
  "generate_template svc w request =
     (case validate_request request of
        Inl e \<Rightarrow> fail_with svc w request (uni ''Failed to generate template: '' @ e)
      | Inr _ \<Rightarrow>
          if \<not> client_available w then handle_fallback_generation svc w request
          else
            (case client_reply w of
               Inl e \<Rightarrow> fail_with svc w request (uni ''Failed to generate template: '' @ e)
             | Inr response_text \<Rightarrow>
                 (case extract_html_from_response response_text of
                    None \<Rightarrow> handle_fallback_generation svc w request
                  | Some html_content \<Rightarrow>
                      if html_content = [] then handle_fallback_generation svc w request
                      else
                        (case make_template w request html_content
                                (extract_email_components html_content) of
                           Inr tpl \<Rightarrow> store_and_succeed svc w request tpl
                         | Inl e \<Rightarrow>
                             fail_with svc w request
                               (uni ''Failed to generate template: '' @ e)))))"

text \<open>
  \<open>regenerate_template\<close>. The request is rebuilt from the strings of the stored template;
  a string that is no value of its enumeration raises, and the \<open>except\<close> branch answers
  without recording anything.
\<close>

definition rebuild_request :: "EmailTemplate \<Rightarrow> ustr + PhishingRequest" where
  "rebuild_request original =
     (case ScenarioType_of (t_scenario_type original) of Inl e \<Rightarrow> Inl e | Inr sc \<Rightarrow>
     (case TargetIndustry_of (t_target_industry original) of Inl e \<Rightarrow> Inl e | Inr ti \<Rightarrow>
     (case UrgencyLevel_of (t_urgency_level original) of Inl e \<Rightarrow> Inl e | Inr ul \<Rightarrow>
     (case ToneStyle_of (t_tone_style original) of Inl e \<Rightarrow> Inl e | Inr ts \<Rightarrow>
     (case Language_of (t_language original) of Inl e \<Rightarrow> Inl e | Inr la \<Rightarrow>
     (case (case t_phishing_tactic original of
              None \<Rightarrow> Inr None
            | Some s \<Rightarrow> if s = [] then Inr None else map_sum id Some (PhishingTactic_of s)) of
        Inl e \<Rightarrow> Inl e
      | Inr pt \<Rightarrow>
          Inr \<lparr>scenario_type = sc, target_industry = ti, urgency_level = ul, tone_style = ts,
               language = la, phishing_tactic = pt,
               advanced_mode = t_advanced_mode original\<rparr>))))))"

definition regenerate_template ::
  "TemplateService \<Rightarrow> world \<Rightarrow> ustr \<Rightarrow> GenerationResponse \<times> TemplateService" where
  "regenerate_template svc w template_id =
     (case get_template svc template_id of
        None \<Rightarrow>
          (\<lparr>success = False, template = None,
            error = Some (uni ''Template '' @ template_id @ uni '' not found''),
            generation_time = 0\<rparr>, svc)
      | Some original \<Rightarrow>
          (case rebuild_request original of
             Inl e \<Rightarrow>
               (\<lparr>success = False, template = None,
                 error = Some (uni ''Error regenerating template: '' @ e),
                 generation_time = 0\<rparr>, svc)
           | Inr request \<Rightarrow> generate_template svc w request))"

section \<open>Runs of the operations, for the statements below\<close>

text \<open>
  A recording is the argument list of one call of \<open>_record_generation_history\<close> together
  with the \<open>datetime.now()\<close> it reads; \<open>entry_of\<close> is the entry that call appends and
  \<open>record_all\<close> makes the calls one after the other.
\<close>

type_synonym recording = "PhishingRequest \<times> ustr option \<times> bool \<times> ustr option \<times> real \<times> real"

fun entry_of :: "recording \<Rightarrow> GenerationHistoryEntry" where
  "entry_of (request, template_id, ok, err, gen_time, now) =
     \<lparr>h_timestamp = now, h_request = request, h_template_id = template_id,
      h_success = ok, h_error = err, h_generation_time = gen_time\<rparr>"

fun record_all :: "TemplateService \<Rightarrow> recording list \<Rightarrow> TemplateService" where
  "record_all svc [] = svc"
| "record_all svc ((request, template_id, ok, err, gen_time, now) # rest) =
     record_all (record_generation_history svc request template_id ok err gen_time now) rest"

definition keep_last :: "nat \<Rightarrow> 'a list \<Rightarrow> 'a list" where
  "keep_last n xs = drop (length xs - n) xs"

definition numbered :: "nat \<Rightarrow> recording" where
  "numbered i =
     (\<lparr>scenario_type = SECURITY_ALERT, target_industry = BANKING, urgency_level = NORMAL,
       tone_style = FORMAL, language = ENGLISH, phishing_tactic = None, advanced_mode = False\<rparr>,
      None, False, Some (uni ''e''), 0, real i)"

text \<open>
  \<open>checks\<close> makes one admission check after the other for the same client, at the given
  clock readings, and returns the answers and the limiter left behind; \<open>recorded\<close> is the
  list of timestamps the limiter holds for a client (none for a client it has not seen).
\<close>

fun checks :: "RateLimiter \<Rightarrow> ustr \<Rightarrow> real list \<Rightarrow> bool list \<times> RateLimiter" where
  "checks rl client_id [] = ([], rl)"
| "checks rl client_id (now # later) =
     (let (ok, rl1) = is_allowed rl client_id now;
          (oks, rl2) = checks rl1 client_id later
      in (ok # oks, rl2))"

definition recorded :: "RateLimiter \<Rightarrow> ustr \<Rightarrow> real list" where
  "recorded rl client_id = (case requests rl client_id of Some ts \<Rightarrow> ts | None \<Rightarrow> [])"

definition ten_times :: "real list" where
  "ten_times = [0, 1, 2, 3, 4, 5, 6, 7, 8, 9]"

text \<open>
  A request and two readings of the outside world for the concrete runs: in \<open>world_down\<close>
  the client is not available, in \<open>world_error\<close> the call of the client raises.
\<close>

definition request0 :: PhishingRequest where
  "request0 =
     \<lparr>scenario_type = SECURITY_ALERT, target_industry = BANKING, urgency_level = HIGH,
      tone_style = FORMAL, language = ENGLISH, phishing_tactic = Some PRIZE_SCAM,
      advanced_mode = False\<rparr>"

definition world_down :: world where
  "world_down =
     \<lparr>uuid4 = uni ''0f8fad5b-d9cb-469f-a165-70867728950e'', time_start = 10, time_end = 12,
      now_created = 12, now_recorded = 12, client_available = False,
      client_reply = Inl (uni ''Anthropic client not available'')\<rparr>"

definition world_error :: world where
  "world_error =
     \<lparr>uuid4 = uni ''7c9e6679-7425-40de-944b-e07fc1f90ae7'', time_start = 20, time_end = 21,
      now_created = 21, now_recorded = 21, client_available = True,
      client_reply = Inl (uni ''All models failed. Last error: timeout'')\<rparr>"


text \<open>The number of group boundaries in a pattern.\<close>

fun marks :: "atom list \<Rightarrow> nat" where
  "marks [] = 0"
| "marks (Mark # ps) = Suc (marks ps)"
| "marks (a # ps) = marks ps"



definition jane_html :: ustr where
  "jane_html = uni ''<!-- From: Jane Doe <security@example.com> -->''"



text \<open>
  Two model responses without a code block: one with a lower-case and a later upper-case
  closing tag, one with prose around an HTML document.
\<close>

definition mixed_case_html :: ustr where
  "mixed_case_html = uni ''<html>a</html>b</HTML>''"

definition chatty_html :: ustr where
  "chatty_html = uni ''Sure! <html><body>Hi</body></html> Done.''"

text \<open>
  The spec's words for the search, "maximal": the same pattern with every lazy repetition
  made greedy, so that the captured text is the longest one.
\<close>

fun maximal :: "atom list \<Rightarrow> atom list" where
  "maximal [] = []"
| "maximal (Rep Lazy p # ps) = Rep Greedy p # maximal ps"
| "maximal (a # ps) = a # maximal ps"

text \<open>
  A model response with two code blocks, and the parts of a response with one code block
  between prose.
\<close>

definition two_fences :: ustr where
  "two_fences = uni ''```html\<newline><p>A</p>\<newline>```\<newline>and\<newline>```\<newline><p>B</p>\<newline>```''"

definition reply_pre :: ustr where "reply_pre = uni ''Here:\<newline>''"
definition reply_inner :: ustr where "reply_inner = uni '' <b>Hi</b> ''"
definition reply_post :: ustr where "reply_post = uni ''\<newline>Bye''"


text \<open>
  A check that a word with a rare character in it (the pivot) occurs nowhere, made piece by
  piece. \<open>mism p t\<close>: the text \<open>t\<close> differs from \<open>p\<close> at a position both have.
  \<open>piv_scan\<close> walks a text and, at every pivot, asks for such a difference either in what
  follows (against \<open>post\<close>) or in what precedes (against each of the reversed \<open>rpres\<close>).
\<close>

fun mism :: "ustr \<Rightarrow> ustr \<Rightarrow> bool" where
  "mism (a # p) (b # t) = (a \<noteq> b \<or> mism p t)"
| "mism _ _ = False"

fun piv_scan :: "nat \<Rightarrow> ustr list \<Rightarrow> ustr \<Rightarrow> ustr \<Rightarrow> ustr \<Rightarrow> bool" where
  "piv_scan pv rpres post seen [] = True"
| "piv_scan pv rpres post seen (x # xs) =
     ((x \<noteq> pv \<or> mism post xs \<or> list_all (\<lambda>rp. mism rp seen) rpres)
      \<and> piv_scan pv rpres post (x # seen) xs)"

definition piv_ok :: "nat \<Rightarrow> ustr list \<Rightarrow> ustr \<Rightarrow> ustr \<Rightarrow> bool" where
  "piv_ok pv rpres post s = piv_scan pv rpres post [] s"

text \<open>
  \<open>wordy\<close>: a text of ASCII letters and blanks only, as every value of the scenario and
  industry enumerations and every fallback sender name is. \<open>sender_of\<close> is the fallback
  sender of an industry, and \<open>fallback_doc\<close> the document that
  \<open>create_fallback_template\<close> returns for a scenario and an industry.
  \<open>company_rpres\<close> holds the names of \<open>real_companies\<close> before their \<open>.com\<close>, reversed.
\<close>

definition wordy :: "ustr \<Rightarrow> bool" where
  "wordy s = list_all (\<lambda>c. (65 \<le> c \<and> c \<le> 90) \<or> (97 \<le> c \<and> c \<le> 122) \<or> c = 32) s"

definition sender_of :: "TargetIndustry \<Rightarrow> ustr \<times> ustr" where
  "sender_of ti = get_fallback_sender_info (TargetIndustry_value ti)"

definition fallback_doc :: "ScenarioType \<Rightarrow> TargetIndustry \<Rightarrow> ustr" where
  "fallback_doc sc ti =
     concat
       (fb_head (ScenarioType_value sc) @ fb_from (fst (sender_of ti)) (snd (sender_of ti))
        @ fb_notice @ fb_body (TargetIndustry_value ti) (ScenarioType_value sc)
        @ fb_link (slug_of (TargetIndustry_value ti))
        @ fb_tail (fst (sender_of ti)) (TargetIndustry_value ti))"

definition company_rpres :: "ustr list" where
  "company_rpres =
     map rev [uni ''microsoft'', uni ''google'', uni ''amazon'', uni ''apple'', uni ''facebook'']"

section \<open>Facts about the text operations and the matcher\<close>

text \<open>\<open>w in s\<close> holds exactly when \<open>s\<close> splits around a copy of \<open>w\<close>.\<close>

lemma str_in_iff: "str_in w s \<longleftrightarrow> (\<exists>a c. s = a @ w @ c)"
proof (induction s)
  case Nil
  then show ?case by auto
next
  case (Cons x xs)
  show ?case
  proof
    assume "str_in w (x # xs)"
    then consider "prefix w (x # xs)" | "str_in w xs" by auto
    then show "\<exists>a c. x # xs = a @ w @ c"
    proof cases
      case 1
      then obtain c where "x # xs = w @ c" by (auto simp: prefix_def)
      then have "x # xs = [] @ w @ c" by simp
      then show ?thesis by blast
    next
      case 2
      then obtain a c where "xs = a @ w @ c" using Cons.IH by blast
      then have "x # xs = (x # a) @ w @ c" by simp
      then show ?thesis by blast
    qed
  next
    assume "\<exists>a c. x # xs = a @ w @ c"
    then obtain a c where ac: "x # xs = a @ w @ c" by blast
    show "str_in w (x # xs)"
    proof (cases a)
      case Nil
      with ac have "prefix w (x # xs)" by (simp add: prefix_def)
      then show ?thesis by simp
    next
      case (Cons y a')
      with ac have "xs = a' @ w @ c" by simp
      then have "str_in w xs" using Cons.IH by blast
      then show ?thesis by simp
    qed
  qed
qed

lemma str_in_appendI: "str_in w (a @ w @ c)"
  by (auto simp: str_in_iff)


text \<open>
  A match carries one mark for every \<open>Mark\<close> of its pattern, so every subject match has
  its group and every sender match has both: the \<open>except\<close> branch of
  \<open>extract_email_components\<close> is never taken, and all three keys are always present.
\<close>

lemma marks_append [simp]: "marks (ps @ qs) = marks ps + marks qs"
  by (induction ps rule: marks.induct) simp_all

lemma marks_lit [simp]: "marks (lit s) = 0"
  by (induction s) (simp_all add: lit_def)

lemma marks_liti [simp]: "marks (liti s) = 0"
  by (induction s) (simp_all add: liti_def)

lemma marks_plus [simp]: "marks (plus p) = 0"
  by (simp add: plus_def)

lemma subject_marks: "\<forall>p \<in> set subject_patterns. marks p = 2"
  by (simp add: subject_patterns_def)

lemma sender_marks: "\<forall>p \<in> set sender_patterns. marks p = 4"
  by (simp add: sender_patterns_def)

lemma re_match_marks: "re_match ps s = Some (ms, r) \<Longrightarrow> length ms = marks ps"
proof (induction ps s arbitrary: ms r rule: re_match.induct)
  case (1 s)
  then show ?case by simp
next
  case (2 c ps s)
  then show ?case by (cases s) (simp_all split: if_splits)
next
  case (3 c ps s)
  then show ?case by (cases s) (simp_all split: if_splits)
next
  case (4 p ps s)
  then show ?case by (cases s) (simp_all split: if_splits)
next
  case (5 ps s)
  then show ?case by (cases "re_match ps s") auto
next
  case (6 p ps s)
  show ?case
  proof (cases s)
    case Nil
    with 6 show ?thesis by simp
  next
    case (Cons x xs)
    show ?thesis
    proof (cases "p x")
      case True
      show ?thesis
      proof (cases "re_match (Rep Greedy p # ps) xs")
        case None
        with 6 Cons True show ?thesis by simp
      next
        case (Some a)
        with 6(2) [OF Cons True] 6(5) Cons True show ?thesis by (cases a) simp
      qed
    next
      case False
      with 6 Cons show ?thesis by simp
    qed
  qed
next
  case (7 p ps s)
  show ?case
  proof (cases "re_match ps s")
    case (Some a)
    with 7 show ?thesis by (cases a) simp
  next
    case None
    with 7 show ?thesis by (cases s) (simp_all split: if_splits)
  qed
qed

lemma re_search_marks: "re_search ps s = Some (ms, r) \<Longrightarrow> length ms = marks ps"
proof (induction s)
  case Nil
  then show ?case by (simp add: re_match_marks)
next
  case (Cons c cs)
  then show ?case
    by (cases "re_match ps (c # cs)") (auto dest: re_match_marks)
qed

lemma length_groups: "length (groups ms) = length ms div 2"
  by (induction ms rule: groups.induct) simp_all

lemma first_match_SomeD:
  "first_match pats text = Some gs \<Longrightarrow>
     \<exists>p \<in> set pats. \<exists>ms r. re_search p text = Some (ms, r) \<and> gs = groups ms"
proof (induction pats)
  case Nil
  then show ?case by simp
next
  case (Cons p pats)
  then show ?case
    by (cases "re_search p text") auto
qed

lemma first_match_length:
  assumes "first_match pats text = Some gs" and "\<forall>p \<in> set pats. marks p = n"
  shows "length gs = n div 2"
proof -
  obtain p ms r where "p \<in> set pats" "re_search p text = Some (ms, r)" "gs = groups ms"
    using first_match_SomeD [OF assms(1)] by blast
  then show ?thesis
    using assms(2) re_search_marks [of p _ ms r] by (simp add: length_groups)
qed

lemma subject_groups:
  "first_match subject_patterns html = Some gs \<Longrightarrow> \<exists>g. gs = [g]"
  using first_match_length [OF _ subject_marks, of html gs]
  by (cases gs) auto

lemma sender_groups:
  "first_match sender_patterns html = Some gs \<Longrightarrow> \<exists>g1 g2. gs = [g1, g2]"
  using first_match_length [OF _ sender_marks, of html gs]
  by (cases gs; cases "tl gs"; cases "tl (tl gs)") auto

lemma set_subject_eq:
  "set_subject html comps =
     Some (case first_match subject_patterns html of
             None \<Rightarrow> comps
           | Some gs \<Rightarrow> comps(''subject'' \<mapsto> take 100 (re_sub tag_pattern [] (strip (hd gs)))))"
proof (cases "first_match subject_patterns html")
  case None
  then show ?thesis by (simp add: set_subject_def)
next
  case (Some gs)
  then obtain g where "gs = [g]" using subject_groups by blast
  with Some show ?thesis by (simp add: set_subject_def)
qed

lemma set_sender_eq:
  "set_sender html comps =
     Some (case first_match sender_patterns html of
             None \<Rightarrow> comps
           | Some gs \<Rightarrow>
               comps(''sender_name'' \<mapsto> strip (hd gs), ''sender_email'' \<mapsto> strip (hd (tl gs))))"
proof (cases "first_match sender_patterns html")
  case None
  then show ?thesis by (simp add: set_sender_def)
next
  case (Some gs)
  then obtain g1 g2 where "gs = [g1, g2]" using sender_groups by blast
  with Some show ?thesis by (simp add: set_sender_def)
qed

lemma dom_default_components:
  "dom default_components = {''subject'', ''sender_name'', ''sender_email''}"
  by (auto simp: default_components_def)

lemma dom_generate_realistic_sender:
  "dom (generate_realistic_sender html comps) = dom comps \<union> {''sender_name'', ''sender_email''}"
  by (auto simp: generate_realistic_sender_def Let_def split_beta)

lemma dom_extract_email_components:
  "dom (extract_email_components html) = {''subject'', ''sender_name'', ''sender_email''}"
  unfolding extract_email_components_def set_subject_eq set_sender_eq
  by (auto simp: dom_default_components dom_generate_realistic_sender split: option.splits)

text \<open>
  \<open>find\<close> returns the first and \<open>rfind\<close> the last position at which the word occurs,
  and \<open>-1\<close> exactly when it does not occur.
\<close>

lemma str_in_drop_iff: "str_in w s \<longleftrightarrow> (\<exists>j \<le> length s. prefix w (drop j s))"
proof (induction s)
  case Nil
  then show ?case by auto
next
  case (Cons c cs)
  show ?case
  proof
    assume "str_in w (c # cs)"
    then consider "prefix w (c # cs)" | "str_in w cs" by auto
    then show "\<exists>j \<le> length (c # cs). prefix w (drop j (c # cs))"
    proof cases
      case 1
      then have "prefix w (drop 0 (c # cs))" by simp
      then show ?thesis by blast
    next
      case 2
      then obtain j where "j \<le> length cs" "prefix w (drop j cs)" using Cons.IH by blast
      then have "Suc j \<le> length (c # cs)" "prefix w (drop (Suc j) (c # cs))" by simp_all
      then show ?thesis by blast
    qed
  next
    assume "\<exists>j \<le> length (c # cs). prefix w (drop j (c # cs))"
    then obtain j where j: "j \<le> length (c # cs)" "prefix w (drop j (c # cs))" by blast
    show "str_in w (c # cs)"
    proof (cases j)
      case 0
      with j show ?thesis by simp
    next
      case (Suc j')
      with j have "j' \<le> length cs" "prefix w (drop j' cs)" by simp_all
      then have "str_in w cs" using Cons.IH by blast
      then show ?thesis by simp
    qed
  qed
qed

lemma not_str_in_drop: "\<not> str_in w s \<Longrightarrow> w \<noteq> [] \<Longrightarrow> \<not> prefix w (drop j s)"
proof (cases "j \<le> length s")
  case True
  assume "\<not> str_in w s"
  with True show ?thesis by (auto simp: str_in_drop_iff)
next
  case False
  assume "w \<noteq> []"
  with False show ?thesis by simp
qed

lemma str_find_bounds: "str_find w s = - 1 \<or> (0 \<le> str_find w s \<and> str_find w s \<le> int (length s))"
  by (induction s) (auto simp: Let_def)

lemma str_find_none: "str_find w s = - 1 \<longleftrightarrow> \<not> str_in w s"
proof (induction s)
  case Nil
  then show ?case by simp
next
  case (Cons c cs)
  then show ?case
    using str_find_bounds [of w cs] by (auto simp: Let_def)
qed

lemma str_find_first:
  "str_find w s \<noteq> - 1 \<Longrightarrow>
     prefix w (drop (nat (str_find w s)) s) \<and> (\<forall>j < nat (str_find w s). \<not> prefix w (drop j s))"
proof (induction s)
  case Nil
  then show ?case by (simp split: if_splits)
next
  case (Cons c cs)
  show ?case
  proof (cases "prefix w (c # cs)")
    case True
    then show ?thesis by simp
  next
    case False
    with Cons.prems have r: "str_find w cs \<noteq> - 1" by (auto simp: Let_def)
    then have nn: "0 \<le> str_find w cs" using str_find_bounds [of w cs] by auto
    have eq: "str_find w (c # cs) = str_find w cs + 1"
      using False r by (simp add: Let_def)
    have n: "nat (str_find w cs + 1) = Suc (nat (str_find w cs))"
      using nn by simp
    have "\<not> prefix w (drop j (c # cs))" if "j < Suc (nat (str_find w cs))" for j
      using that False Cons.IH [OF r] by (cases j) auto
    then show ?thesis
      unfolding eq n using Cons.IH [OF r] by simp
  qed
qed

lemma str_rfind_bounds:
  "str_rfind w s = - 1 \<or> (0 \<le> str_rfind w s \<and> str_rfind w s \<le> int (length s))"
  by (induction s) (auto simp: Let_def)

lemma str_rfind_none: "str_rfind w s = - 1 \<longleftrightarrow> \<not> str_in w s"
proof (induction s)
  case Nil
  then show ?case by simp
next
  case (Cons c cs)
  then show ?case
    using str_rfind_bounds [of w cs] by (auto simp: Let_def)
qed

lemma str_rfind_last:
  "str_rfind w s \<noteq> - 1 \<Longrightarrow>
     prefix w (drop (nat (str_rfind w s)) s)
     \<and> (\<forall>j. nat (str_rfind w s) < j \<and> j \<le> length s \<longrightarrow> \<not> prefix w (drop j s))"
proof (induction s)
  case Nil
  then show ?case by (simp split: if_splits)
next
  case (Cons c cs)
  show ?case
  proof (cases "str_rfind w cs = - 1")
    case True
    with Cons.prems have p: "prefix w (c # cs)" and eq: "str_rfind w (c # cs) = 0"
      by (auto simp: Let_def split: if_splits)
    have "\<not> prefix w (drop j (c # cs))" if pos: "0 < j" and le: "j \<le> length (c # cs)" for j
    proof -
      obtain j' where j': "j = Suc j'" using pos by (cases j) auto
      have "\<not> str_in w cs" using True by (simp add: str_rfind_none)
      then have "\<not> prefix w (drop j' cs)"
        using le j' by (auto simp: str_in_drop_iff)
      then show ?thesis by (simp add: j')
    qed
    then show ?thesis unfolding eq using p by simp
  next
    case False
    then have nn: "0 \<le> str_rfind w cs" using str_rfind_bounds [of w cs] by auto
    have eq: "str_rfind w (c # cs) = str_rfind w cs + 1"
      using False by (simp add: Let_def)
    have n: "nat (str_rfind w cs + 1) = Suc (nat (str_rfind w cs))"
      using nn by simp
    have "\<not> prefix w (drop j (c # cs))"
      if "Suc (nat (str_rfind w cs)) < j" "j \<le> length (c # cs)" for j
      using that Cons.IH [OF False] by (cases j) auto
    then show ?thesis
      unfolding eq n using Cons.IH [OF False] by simp
  qed
qed

lemma lower_append: "lower (a @ b) = lower a @ lower b"
  by (simp add: lower_def)

lemma str_in_lower: "str_in w s \<Longrightarrow> str_in (lower w) (lower s)"
proof -
  assume "str_in w s"
  then obtain a c where "s = a @ w @ c" by (auto simp: str_in_iff)
  then have "lower s = lower a @ lower w @ lower c" by (simp add: lower_append)
  then show ?thesis by (simp only: str_in_appendI)
qed



text \<open>
  A pattern that begins with literal text matches only where that text stands; a lazy
  \<open>.*?\<close> under \<open>re.DOTALL\<close> followed by the rest of a pattern is a search for that rest;
  a search succeeds at the first position at which the pattern matches.
\<close>

lemma re_match_lit:
  "re_match (lit w @ ps) s = (if prefix (uni w) s then re_match ps (drop (length w) s) else None)"
proof (induction w arbitrary: s)
  case Nil
  then show ?case by (simp add: lit_def uni_def)
next
  case (Cons c w)
  have l: "lit (c # w) = Chr (of_char c) # lit w" and u: "uni (c # w) = of_char c # uni w"
    by (simp_all add: lit_def uni_def)
  show ?case
    unfolding l u using Cons.IH by (cases s) auto
qed

lemma lazy_any_eq_search: "re_match (Rep Lazy any_char # ps) s = re_search ps s"
proof (induction s)
  case Nil
  then show ?case by (cases "re_match ps []") auto
next
  case (Cons c cs)
  then show ?case by (cases "re_match ps (c # cs)") (auto simp: any_char_def)
qed

lemma re_search_SomeI:
  "k \<le> length s \<Longrightarrow> re_match ps (drop k s) = Some res
     \<Longrightarrow> (\<forall>j < k. re_match ps (drop j s) = None) \<Longrightarrow> re_search ps s = Some res"
proof (induction s arbitrary: k)
  case Nil
  then show ?case by simp
next
  case (Cons c cs)
  show ?case
  proof (cases k)
    case 0
    with Cons.prems show ?thesis by simp
  next
    case (Suc k')
    have none: "re_match ps (c # cs) = None"
      using Cons.prems(3) Suc by (metis drop0 zero_less_Suc)
    have "re_search ps cs = Some res"
    proof (rule Cons.IH [of k'])
      show "k' \<le> length cs" using Cons.prems(1) Suc by simp
      show "re_match ps (drop k' cs) = Some res" using Cons.prems(2) Suc by simp
      show "\<forall>j < k'. re_match ps (drop j cs) = None"
      proof (intro allI impI)
        fix j assume "j < k'"
        then have "Suc j < k" using Suc by simp
        then have "re_match ps (drop (Suc j) (c # cs)) = None" using Cons.prems(3) by blast
        then show "re_match ps (drop j cs) = None" by simp
      qed
    qed
    then show ?thesis using none by simp
  qed
qed

lemma re_search_SomeD:
  "re_search ps s = Some res \<Longrightarrow> \<exists>k \<le> length s. re_match ps (drop k s) = Some res"
proof (induction s)
  case Nil
  then show ?case by simp
next
  case (Cons c cs)
  show ?case
  proof (cases "re_match ps (c # cs)")
    case (Some a)
    with Cons.prems have "re_match ps (drop 0 (c # cs)) = Some res" by simp
    then show ?thesis by blast
  next
    case None
    with Cons.prems have "re_search ps cs = Some res" by simp
    then obtain k where "k \<le> length cs" "re_match ps (drop k cs) = Some res"
      using Cons.IH by blast
    then have "Suc k \<le> length (c # cs)" "re_match ps (drop (Suc k) (c # cs)) = Some res"
      by simp_all
    then show ?thesis by blast
  qed
qed

lemma first_match_nth:
  "i < length pats \<Longrightarrow> (\<forall>j < i. re_search (pats ! j) s = None)
     \<Longrightarrow> re_search (pats ! i) s = Some (ms, r) \<Longrightarrow> first_match pats s = Some (groups ms)"
proof (induction pats arbitrary: i)
  case Nil
  then show ?case by simp
next
  case (Cons p pats)
  show ?case
  proof (cases i)
    case 0
    with Cons.prems show ?thesis by simp
  next
    case (Suc i')
    have none: "re_search p s = None"
      using Cons.prems(2) Suc by (metis nth_Cons_0 zero_less_Suc)
    have "first_match pats s = Some (groups ms)"
    proof (rule Cons.IH [of i'])
      show "i' < length pats" using Cons.prems(1) Suc by simp
      show "re_search (pats ! i') s = Some (ms, r)" using Cons.prems(3) Suc by simp
      show "\<forall>j < i'. re_search (pats ! j) s = None"
      proof (intro allI impI)
        fix j assume "j < i'"
        then have "Suc j < i" using Suc by simp
        then have "re_search ((p # pats) ! Suc j) s = None" using Cons.prems(2) by blast
        then show "re_search (pats ! j) s = None" by simp
      qed
    qed
    then show ?thesis using none by simp
  qed
qed

section \<open>The history is bounded and first-in, first-out\<close>

lemma keep_last_rev: "keep_last n xs = rev (take n (rev xs))"
  by (simp add: keep_last_def take_rev)

lemma keep_last_keep_last_append:
  "keep_last n (keep_last n xs @ ys) = keep_last n (xs @ ys)"
  by (simp add: keep_last_rev min_def)

lemma history_record:
  "generation_history (record_generation_history svc request template_id ok err gen_time now)
     = keep_last max_history
         (generation_history svc @ [entry_of (request, template_id, ok, err, gen_time, now)])"
  by (simp add: record_generation_history_def keep_last_def Let_def)

lemma history_record_all:
  "generation_history (record_all svc calls)
     = (if calls = [] then generation_history svc
        else keep_last max_history (generation_history svc @ map entry_of calls))"
proof (induction calls arbitrary: svc)
  case Nil
  then show ?case by simp
next
  case (Cons c calls)
  obtain request template_id ok err gen_time now
    where c: "c = (request, template_id, ok, err, gen_time, now)"
    by (cases c) auto
  show ?case
  proof (cases "calls = []")
    case True
    then show ?thesis by (simp add: c history_record)
  next
    case False
    with False show ?thesis
      by (simp add: c Cons.IH history_record keep_last_keep_last_append)
  qed
qed

text \<open>
  Claim C7. Starting from the empty history of a new service, after any sequence of recorded
  attempts the history holds at most 1000 entries, and it is the sequence of all recorded
  entries with the oldest ones dropped from the front (first in, first out, the order of the
  survivors unchanged); after 1001 recordings exactly the first entry is gone and the 1001st
  is the last one.
\<close>

theorem history_capped_fifo:
  "length (generation_history (record_all new_template_service calls)) \<le> 1000
   \<and> generation_history (record_all new_template_service calls)
       = drop (length calls - 1000) (map entry_of calls)
   \<and> (length calls = 1001 \<longrightarrow>
        generation_history (record_all new_template_service calls) = tl (map entry_of calls))"
proof -
  have eq: "generation_history (record_all new_template_service calls)
              = drop (length calls - 1000) (map entry_of calls)"
    by (simp add: history_record_all new_template_service_def keep_last_def max_history_def)
  have "length (drop (length calls - 1000) (map entry_of calls)) \<le> 1000"
    by simp
  moreover have "length calls = 1001 \<Longrightarrow>
      drop (length calls - 1000) (map entry_of calls) = tl (map entry_of calls)"
    by (simp add: drop_Suc)
  ultimately show ?thesis
    using eq by simp
qed

lemma timestamps_numbered: "map h_timestamp (map entry_of (map numbered xs)) = map real xs"
  by (simp add: numbered_def comp_def)

theorem history_capped_fifo_witness:
  "length (map numbered [1..<1002]) = 1001
   \<and> map h_timestamp (generation_history (record_all new_template_service (map numbered [1..<1002])))
       = map real [Suc 1..<1002]"
proof -
  have len: "length (map numbered [1..<1002]) = 1001"
    by (simp only: length_map length_upt)
  have "generation_history (record_all new_template_service (map numbered [1..<1002]))
          = tl (map entry_of (map numbered [1..<1002]))"
    using history_capped_fifo [of "map numbered [1..<1002]"] len by blast
  also have "\<dots> = map entry_of (map numbered [Suc 1..<1002])"
    by (simp only: map_tl[symmetric] tl_upt)
  finally show ?thesis
    using len by (simp only: timestamps_numbered)
qed

section \<open>The rate limiter\<close>

lemma is_allowed_eq:
  "is_allowed rl c now =
     (let kept = filter (\<lambda>t. now - real_of_int (time_window rl) < t) (recorded rl c) in
      (int (length kept) < max_requests rl,
       rl\<lparr>requests := (requests rl)(c \<mapsto> kept @ (if int (length kept) < max_requests rl then [now] else []))\<rparr>))"
  by (auto simp: is_allowed_def recorded_def Let_def split: option.splits)

lemma is_allowed_fields [simp]:
  "max_requests (snd (is_allowed rl c now)) = max_requests rl"
  "time_window (snd (is_allowed rl c now)) = time_window rl"
  by (simp_all add: is_allowed_eq Let_def)

lemma checks_admitted:
  assumes "max_requests rl = 10" "time_window rl = 60"
    and "\<forall>t \<in> set (recorded rl c @ ts). a \<le> t \<and> t < a + 60"
    and "length (recorded rl c) + length ts \<le> 10"
  shows "fst (checks rl c ts) = replicate (length ts) True
         \<and> recorded (snd (checks rl c ts)) c = recorded rl c @ ts
         \<and> max_requests (snd (checks rl c ts)) = 10 \<and> time_window (snd (checks rl c ts)) = 60"
  using assms
proof (induction ts arbitrary: rl)
  case Nil
  then show ?case by simp
next
  case (Cons t ts)
  let ?rl1 = "snd (is_allowed rl c t)"
  have "t - 60 < x" if "x \<in> set (recorded rl c)" for x
  proof -
    have "a \<le> x" "t < a + 60"
      using Cons.prems(3) that by auto
    then show ?thesis by linarith
  qed
  then have keep: "filter (\<lambda>x. t - real_of_int (time_window rl) < x) (recorded rl c) = recorded rl c"
    using Cons.prems(2) by (simp add: filter_id_conv)
  have ok: "fst (is_allowed rl c t)" and rec1: "recorded ?rl1 c = recorded rl c @ [t]"
    using Cons.prems keep by (simp_all add: is_allowed_eq Let_def recorded_def)
  have "fst (checks ?rl1 c ts) = replicate (length ts) True
         \<and> recorded (snd (checks ?rl1 c ts)) c = recorded ?rl1 c @ ts
         \<and> max_requests (snd (checks ?rl1 c ts)) = 10 \<and> time_window (snd (checks ?rl1 c ts)) = 60"
    using Cons.prems by (intro Cons.IH) (auto simp: rec1)
  then show ?case
    using ok rec1 by (simp add: split_beta Let_def)
qed

lemma checks_snoc:
  "checks rl c (ts @ [t]) =
     (fst (checks rl c ts) @ [fst (is_allowed (snd (checks rl c ts)) c t)],
      snd (is_allowed (snd (checks rl c ts)) c t))"
  by (induction ts arbitrary: rl) (simp_all add: split_beta Let_def)

lemma recorded_new [simp]: "recorded (new_rate_limiter m w) c = []"
  by (simp add: recorded_def new_rate_limiter_def)

lemma recorded_is_allowed:
  "recorded (snd (is_allowed rl c now)) c
     = filter (\<lambda>t. now - real_of_int (time_window rl) < t) (recorded rl c)
       @ (if fst (is_allowed rl c now) then [now] else [])"
  by (simp add: is_allowed_eq Let_def recorded_def)

lemma fst_is_allowed:
  "fst (is_allowed rl c now)
     = (int (length (filter (\<lambda>t. now - real_of_int (time_window rl) < t) (recorded rl c)))
          < max_requests rl)"
  by (simp add: is_allowed_eq Let_def)

text \<open>
  Claim C8. Every admission check first drops the client's timestamps that are a window or
  more old, and records the current time exactly when it admits. For a new limiter with
  ceiling 10 and window 60 and eleven checks of one client whose times all lie within one
  window: the first ten are admitted and leave exactly their ten timestamps recorded, the
  eleventh is rejected and records nothing, and a later check at a time by which at least one
  of the ten recorded requests is a full window old is admitted again.
\<close>

theorem rate_limiter_window:
  assumes len: "length ts = 10"
    and win: "\<forall>t \<in> set (ts @ [t11]). a \<le> t \<and> t < a + 60"
  shows "(\<forall>rl c now. recorded (snd (is_allowed rl c now)) c
            = filter (\<lambda>t. now - real_of_int (time_window rl) < t) (recorded rl c)
              @ (if fst (is_allowed rl c now) then [now] else []))
       \<and> fst (checks (new_rate_limiter 10 60) c (ts @ [t11])) = replicate 10 True @ [False]
       \<and> recorded (snd (checks (new_rate_limiter 10 60) c ts)) c = ts
       \<and> recorded (snd (checks (new_rate_limiter 10 60) c (ts @ [t11]))) c = ts
       \<and> ((\<exists>t \<in> set ts. t + 60 \<le> t12) \<longrightarrow>
            fst (is_allowed (snd (checks (new_rate_limiter 10 60) c (ts @ [t11]))) c t12))"
proof -
  let ?fresh = "new_rate_limiter 10 60"
  let ?s10 = "snd (checks ?fresh c ts)"
  let ?s11 = "snd (checks ?fresh c (ts @ [t11]))"
  have ten: "fst (checks ?fresh c ts) = replicate (length ts) True
         \<and> recorded ?s10 c = recorded ?fresh c @ ts
         \<and> max_requests ?s10 = 10 \<and> time_window ?s10 = 60"
  proof (rule checks_admitted [where a = a])
    show "max_requests ?fresh = 10" "time_window ?fresh = 60"
      by (simp_all add: new_rate_limiter_def)
    show "\<forall>t \<in> set (recorded ?fresh c @ ts). a \<le> t \<and> t < a + 60"
      using win by simp
    show "length (recorded ?fresh c) + length ts \<le> 10"
      using len by simp
  qed
  have "t11 - 60 < x" if "x \<in> set ts" for x
  proof -
    have "a \<le> x" "t11 < a + 60"
      using win that by auto
    then show ?thesis by linarith
  qed
  then have keep: "filter ((<) (t11 - 60)) ts = ts"
    by (simp add: filter_id_conv)
  have eleventh: "\<not> fst (is_allowed ?s10 c t11)"
    using ten len by (simp add: fst_is_allowed keep)
  have s11: "?s11 = snd (is_allowed ?s10 c t11)"
    by (simp add: checks_snoc)
  have rec11: "recorded ?s11 c = ts"
    using eleventh keep ten by (simp add: s11 recorded_is_allowed)
  have mw11: "max_requests ?s11 = 10" "time_window ?s11 = 60"
    using ten by (simp_all add: s11)
  have again: "fst (is_allowed ?s11 c t12)" if ex: "\<exists>t \<in> set ts. t + 60 \<le> t12"
  proof -
    obtain t where t: "t \<in> set ts" "t + 60 \<le> t12"
      using ex by blast
    then have "\<not> t12 - 60 < t"
      by linarith
    then have "length (filter ((<) (t12 - 60)) ts) < length ts"
      using t(1) by (rule length_filter_less [rotated])
    then show ?thesis
      using len by (simp add: fst_is_allowed rec11 mw11)
  qed
  show ?thesis
    using ten len eleventh rec11 again
    by (simp add: recorded_is_allowed checks_snoc)
qed

theorem rate_limiter_window_witness:
  "length ten_times = 10
   \<and> fst (checks (new_rate_limiter 10 60) (uni ''10.0.0.1'') (ten_times @ [59]))
       = replicate 10 True @ [False]
   \<and> recorded (snd (checks (new_rate_limiter 10 60) (uni ''10.0.0.1'') (ten_times @ [59])))
        (uni ''10.0.0.1'') = ten_times
   \<and> fst (is_allowed (snd (checks (new_rate_limiter 10 60) (uni ''10.0.0.1'') (ten_times @ [59])))
        (uni ''10.0.0.1'') 60)"
proof -
  have l: "length ten_times = 10"
    by (simp add: ten_times_def)
  have w: "\<forall>t \<in> set (ten_times @ [59]). (0::real) \<le> t \<and> t < 0 + 60"
    by (simp add: ten_times_def)
  have e: "\<exists>t \<in> set ten_times. t + 60 \<le> 60"
    by (simp add: ten_times_def)
  show ?thesis
    using rate_limiter_window [OF l w, of "uni ''10.0.0.1''" 60] l w e by blast
qed

section \<open>One generation attempt\<close>

lemma ScenarioType_value_nonempty: "ScenarioType_value sc \<noteq> []"
  by (cases sc) (simp_all add: uni_def)

lemma TargetIndustry_value_nonempty: "TargetIndustry_value ti \<noteq> []"
  by (cases ti) (simp_all add: uni_def)

lemma validate_request_ok: "validate_request request = Inr ()"
  by (simp add: validate_request_def ScenarioType_value_nonempty TargetIndustry_value_nonempty)

lemma component_extract:
  "key \<in> {''subject'', ''sender_name'', ''sender_email''} \<Longrightarrow>
     \<exists>v. component (extract_email_components html) key = Inr v"
  using dom_extract_email_components [of html]
  by (cases "extract_email_components html key") (auto simp: component_def)

lemma make_template_extract:
  "\<exists>t. make_template w request html (extract_email_components html) = Inr t"
proof -
  obtain s n e where
    "component (extract_email_components html) ''subject'' = Inr s"
    "component (extract_email_components html) ''sender_name'' = Inr n"
    "component (extract_email_components html) ''sender_email'' = Inr e"
    using component_extract [of "''subject''" html] component_extract [of "''sender_name''" html]
      component_extract [of "''sender_email''" html]
    by auto
  then show ?thesis
    by (simp add: make_template_def)
qed

lemma make_template_fields:
  assumes "make_template w request html comps = Inr t"
  shows "t_id t = uuid4 w
       \<and> t_html_content t = html
       \<and> t_scenario_type t = ScenarioType_value (scenario_type request)
       \<and> t_target_industry t = TargetIndustry_value (target_industry request)
       \<and> t_urgency_level t = UrgencyLevel_value (urgency_level request)
       \<and> t_tone_style t = ToneStyle_value (tone_style request)
       \<and> t_language t = Language_value (language request)
       \<and> t_phishing_tactic t = map_option PhishingTactic_value (phishing_tactic request)"
  using assms by (auto simp: make_template_def split: sum.splits)

text \<open>Both paths end in one of two ways.\<close>

lemma generate_template_outcome:
  "(\<exists>t html comps. make_template w request html comps = Inr t
        \<and> generate_template svc w request = store_and_succeed svc w request t)
   \<or> (\<exists>e. client_available w \<and> client_reply w = Inl e
        \<and> generate_template svc w request
            = fail_with svc w request (uni ''Failed to generate template: '' @ e))"
proof -
  have fallback: "\<exists>t html comps. make_template w request html comps = Inr t
        \<and> handle_fallback_generation svc w request = store_and_succeed svc w request t"
  proof -
    let ?html = "create_fallback_template (request_dict request)"
    obtain t where "make_template w request ?html (extract_email_components ?html) = Inr t"
      using make_template_extract by blast
    then show ?thesis
      by (auto simp: handle_fallback_generation_def Let_def)
  qed
  show ?thesis
  proof (cases "client_available w")
    case False
    then show ?thesis
      using fallback by (simp add: generate_template_def validate_request_ok)
  next
    case True
    show ?thesis
    proof (cases "client_reply w")
      case (Inl e)
      with True show ?thesis
        by (simp add: generate_template_def validate_request_ok)
    next
      case (Inr response_text)
      show ?thesis
      proof (cases "extract_html_from_response response_text")
        case None
        with True Inr fallback show ?thesis
          by (simp add: generate_template_def validate_request_ok)
      next
        case (Some html)
        show ?thesis
        proof (cases "html = []")
          case True
          with \<open>client_available w\<close> Inr Some fallback show ?thesis
            by (simp add: generate_template_def validate_request_ok)
        next
          case False
          obtain t where "make_template w request html (extract_email_components html) = Inr t"
            using make_template_extract by blast
          with \<open>client_available w\<close> Inr Some False show ?thesis
            by (auto simp: generate_template_def validate_request_ok)
        qed
      qed
    qed
  qed
qed

lemma failed_text_nonempty: "uni ''Failed to generate template: '' @ e \<noteq> []"
  by (simp add: uni_def)

lemma success_store: "success (fst (store_and_succeed svc w request t))"
  by (simp add: store_and_succeed_def Let_def)

lemma success_fail: "\<not> success (fst (fail_with svc w request m))"
  by (simp add: fail_with_def)

lemma generate_template_success_iff:
  "success (fst (generate_template svc w request))
     \<longleftrightarrow> \<not> (client_available w \<and> isl (client_reply w))"
  using generate_template_outcome [of w request svc]
proof (elim disjE exE conjE)
  fix t html comps
  assume mk: "make_template w request html comps = Inr t"
    and eq: "generate_template svc w request = store_and_succeed svc w request t"
  have "\<not> (client_available w \<and> isl (client_reply w))"
  proof
    assume "client_available w \<and> isl (client_reply w)"
    then obtain e where "client_available w" "client_reply w = Inl e"
      by (cases "client_reply w") auto
    then have "generate_template svc w request
        = fail_with svc w request (uni ''Failed to generate template: '' @ e)"
      by (simp add: generate_template_def validate_request_ok)
    with eq success_store [of svc w request t] success_fail show False
      by metis
  qed
  then show ?thesis
    by (simp add: eq success_store)
next
  fix e
  assume "client_available w" "client_reply w = Inl e"
    and "generate_template svc w request
           = fail_with svc w request (uni ''Failed to generate template: '' @ e)"
  then show ?thesis
    by (simp add: success_fail)
qed

lemma history_store:
  "generation_history (snd (store_and_succeed svc w request t))
     = keep_last 1000 (generation_history svc
         @ [\<lparr>h_timestamp = now_recorded w, h_request = request, h_template_id = Some (uuid4 w),
              h_success = True, h_error = None,
              h_generation_time = time_end w - time_start w\<rparr>])"
  by (simp add: store_and_succeed_def record_generation_history_def Let_def keep_last_def
      max_history_def)

lemma history_fail:
  "generation_history (snd (fail_with svc w request m))
     = keep_last 1000 (generation_history svc
         @ [\<lparr>h_timestamp = now_recorded w, h_request = request, h_template_id = None,
              h_success = False, h_error = Some m,
              h_generation_time = time_end w - time_start w\<rparr>])"
  by (simp add: fail_with_def record_generation_history_def Let_def keep_last_def
      max_history_def)

lemma keep_last_short: "length xs \<le> n \<Longrightarrow> keep_last n xs = xs"
  by (simp add: keep_last_def)

text \<open>
  Claim C1. For every request (its fields are members of the closed enumerations by their
  types), every service state and every outcome of the outside world, \<open>generate_template\<close>
  answers in one of two ways. Either the result is a success that carries a template whose
  six echoed fields \<open>scenario_type\<close>, \<open>target_industry\<close>, \<open>urgency_level\<close>,
  \<open>tone_style\<close>, \<open>language\<close> and \<open>phishing_tactic\<close> equal the string values of the
  request's fields (the template is stored under the new identifier); or the result is a
  failure with no template and a non-empty error text, and the store is what it was. The
  attempt fails exactly when the client is available and its call raises.
\<close>

theorem generate_template_result:
  "(success (fst (generate_template svc w request))
      \<longleftrightarrow> \<not> (client_available w \<and> isl (client_reply w)))
   \<and> ((success (fst (generate_template svc w request))
        \<and> error (fst (generate_template svc w request)) = None
        \<and> (\<exists>t. template (fst (generate_template svc w request)) = Some t
              \<and> t_scenario_type t = ScenarioType_value (scenario_type request)
              \<and> t_target_industry t = TargetIndustry_value (target_industry request)
              \<and> t_urgency_level t = UrgencyLevel_value (urgency_level request)
              \<and> t_tone_style t = ToneStyle_value (tone_style request)
              \<and> t_language t = Language_value (language request)
              \<and> t_phishing_tactic t = map_option PhishingTactic_value (phishing_tactic request)
              \<and> templates (snd (generate_template svc w request))
                  = (templates svc)(uuid4 w \<mapsto> t)))
      \<or> (\<not> success (fst (generate_template svc w request))
          \<and> template (fst (generate_template svc w request)) = None
          \<and> (\<exists>e. error (fst (generate_template svc w request)) = Some e \<and> e \<noteq> [])
          \<and> templates (snd (generate_template svc w request)) = templates svc))"
proof -
  have "(success (fst (generate_template svc w request))
        \<and> error (fst (generate_template svc w request)) = None
        \<and> (\<exists>t. template (fst (generate_template svc w request)) = Some t
              \<and> t_scenario_type t = ScenarioType_value (scenario_type request)
              \<and> t_target_industry t = TargetIndustry_value (target_industry request)
              \<and> t_urgency_level t = UrgencyLevel_value (urgency_level request)
              \<and> t_tone_style t = ToneStyle_value (tone_style request)
              \<and> t_language t = Language_value (language request)
              \<and> t_phishing_tactic t = map_option PhishingTactic_value (phishing_tactic request)
              \<and> templates (snd (generate_template svc w request))
                  = (templates svc)(uuid4 w \<mapsto> t)))
      \<or> (\<not> success (fst (generate_template svc w request))
          \<and> template (fst (generate_template svc w request)) = None
          \<and> (\<exists>e. error (fst (generate_template svc w request)) = Some e \<and> e \<noteq> [])
          \<and> templates (snd (generate_template svc w request)) = templates svc)"
    using generate_template_outcome [of w request svc]
  proof (elim disjE exE conjE)
    fix t html comps
    assume mk: "make_template w request html comps = Inr t"
      and eq: "generate_template svc w request = store_and_succeed svc w request t"
    have "templates (snd (store_and_succeed svc w request t)) = (templates svc)(uuid4 w \<mapsto> t)"
      by (simp add: store_and_succeed_def record_generation_history_def Let_def)
    moreover have "template (fst (store_and_succeed svc w request t)) = Some t"
      "error (fst (store_and_succeed svc w request t)) = None"
      by (simp_all add: store_and_succeed_def Let_def)
    ultimately show ?thesis
      using make_template_fields [OF mk] success_store [of svc w request t]
      by (simp add: eq)
  next
    fix e
    assume eq: "generate_template svc w request
           = fail_with svc w request (uni ''Failed to generate template: '' @ e)"
    have "templates (snd (fail_with svc w request m)) = templates svc"
      "template (fst (fail_with svc w request m)) = None"
      "error (fst (fail_with svc w request m)) = Some m" for m
      by (simp_all add: fail_with_def record_generation_history_def Let_def)
    then show ?thesis
      using success_fail failed_text_nonempty by (simp add: eq)
  qed
  then show ?thesis
    using generate_template_success_iff by blast
qed

theorem generate_template_result_witness:
  "(success (fst (generate_template new_template_service world_down request0))
      \<and> (\<exists>t. template (fst (generate_template new_template_service world_down request0)) = Some t
            \<and> t_scenario_type t = uni ''Security Alert'' \<and> t_target_industry t = uni ''Banking''
            \<and> t_urgency_level t = uni ''High'' \<and> t_tone_style t = uni ''Formal''
            \<and> t_language t = uni ''English'' \<and> t_phishing_tactic t = Some (uni ''prize_scam'')))
   \<and> (\<not> success (fst (generate_template new_template_service world_error request0))
      \<and> (\<exists>e. error (fst (generate_template new_template_service world_error request0)) = Some e
            \<and> e \<noteq> [])
      \<and> templates (snd (generate_template new_template_service world_error request0)) = Map.empty)"
proof -
  have down: "\<not> (client_available world_down \<and> isl (client_reply world_down))"
    by (simp add: world_down_def)
  have err: "client_available world_error \<and> isl (client_reply world_error)"
    by (simp add: world_error_def)
  have rq: "ScenarioType_value (scenario_type request0) = uni ''Security Alert''"
    "TargetIndustry_value (target_industry request0) = uni ''Banking''"
    "UrgencyLevel_value (urgency_level request0) = uni ''High''"
    "ToneStyle_value (tone_style request0) = uni ''Formal''"
    "Language_value (language request0) = uni ''English''"
    "map_option PhishingTactic_value (phishing_tactic request0) = Some (uni ''prize_scam'')"
    by (simp_all add: request0_def)
  have empty: "templates new_template_service = Map.empty"
    by (simp add: new_template_service_def)
  show ?thesis
    using generate_template_result [of new_template_service world_down request0]
      generate_template_result [of new_template_service world_error request0]
    unfolding rq empty using down err by blast
qed

text \<open>
  Claim C6. Every attempt appends exactly one entry to the history (the history afterwards
  is the old one with that entry at its end, cut to its last 1000 entries; below the cap it
  is the old history followed by the entry). The entry's success flag is the result's: a
  success, which includes every fallback, is entered with \<open>success = True\<close>, the new
  template's identifier and no error; a failure is entered with \<open>success = False\<close>, no
  template identifier and the non-empty error text that the result carries.
\<close>

theorem generate_template_history:
  "\<exists>entry.
     generation_history (snd (generate_template svc w request))
       = keep_last 1000 (generation_history svc @ [entry])
     \<and> (length (generation_history svc) < 1000 \<longrightarrow>
          generation_history (snd (generate_template svc w request))
            = generation_history svc @ [entry])
     \<and> h_request entry = request
     \<and> h_success entry = success (fst (generate_template svc w request))
     \<and> (success (fst (generate_template svc w request)) \<longrightarrow>
          h_template_id entry = Some (uuid4 w) \<and> h_error entry = None)
     \<and> (\<not> success (fst (generate_template svc w request)) \<longrightarrow>
          h_template_id entry = None
          \<and> (\<exists>m. h_error entry = Some m \<and> m \<noteq> []
                \<and> error (fst (generate_template svc w request)) = Some m))"
  using generate_template_outcome [of w request svc]
proof (elim disjE exE conjE)
  fix t html comps
  assume eq: "generate_template svc w request = store_and_succeed svc w request t"
  let ?entry = "\<lparr>h_timestamp = now_recorded w, h_request = request,
      h_template_id = Some (uuid4 w), h_success = True, h_error = None,
      h_generation_time = time_end w - time_start w\<rparr>"
  have "generation_history (snd (generate_template svc w request))
          = keep_last 1000 (generation_history svc @ [?entry])"
    by (simp add: eq history_store)
  moreover have "length (generation_history svc) < 1000 \<Longrightarrow>
      keep_last 1000 (generation_history svc @ [?entry]) = generation_history svc @ [?entry]"
    by (simp add: keep_last_short)
  ultimately show ?thesis
    using success_store [of svc w request t]
    by (intro exI [of _ ?entry]) (simp add: eq)
next
  fix e
  assume eq: "generate_template svc w request
           = fail_with svc w request (uni ''Failed to generate template: '' @ e)"
  let ?m = "uni ''Failed to generate template: '' @ e"
  let ?entry = "\<lparr>h_timestamp = now_recorded w, h_request = request,
      h_template_id = None, h_success = False, h_error = Some ?m,
      h_generation_time = time_end w - time_start w\<rparr>"
  have "generation_history (snd (generate_template svc w request))
          = keep_last 1000 (generation_history svc @ [?entry])"
    by (simp add: eq history_fail)
  moreover have "length (generation_history svc) < 1000 \<Longrightarrow>
      keep_last 1000 (generation_history svc @ [?entry]) = generation_history svc @ [?entry]"
    by (simp add: keep_last_short)
  moreover have "error (fst (fail_with svc w request ?m)) = Some ?m"
    by (simp add: fail_with_def)
  ultimately show ?thesis
    using success_fail [of svc w request ?m] failed_text_nonempty [of e]
    by (intro exI [of _ ?entry]) (simp add: eq)
qed

theorem generate_template_history_witness:
  "(\<exists>entry. generation_history (snd (generate_template new_template_service world_down request0))
        = [entry]
      \<and> h_success entry \<and> h_template_id entry = Some (uuid4 world_down) \<and> h_error entry = None)
   \<and> (\<exists>entry. generation_history (snd (generate_template new_template_service world_error request0))
        = [entry]
      \<and> \<not> h_success entry \<and> (\<exists>m. h_error entry = Some m \<and> m \<noteq> []))"
proof -
  have down: "success (fst (generate_template new_template_service world_down request0))"
    by (simp add: generate_template_success_iff world_down_def)
  have err: "\<not> success (fst (generate_template new_template_service world_error request0))"
    by (simp add: generate_template_success_iff world_error_def)
  have empty: "generation_history new_template_service = []"
    by (simp add: new_template_service_def)
  show ?thesis
    using generate_template_history [of new_template_service world_down request0]
      generate_template_history [of new_template_service world_error request0]
    unfolding empty using down err by fastforce
qed

text \<open>
  Claim C9. For an identifier that the store does not hold, \<open>regenerate_template\<close> returns
  a failure whose error text is \<open>Template <id> not found\<close>, carries no template, and
  leaves the service (the store and the history) as it was. The answer is the same whatever
  the state of the client and whatever it would reply: the model is not consulted.
\<close>

theorem regenerate_unknown_id:
  assumes "templates svc template_id = None"
  shows "regenerate_template svc w template_id
           = (\<lparr>success = False, template = None,
               error = Some (uni ''Template '' @ template_id @ uni '' not found''),
               generation_time = 0\<rparr>, svc)
       \<and> str_in (uni ''not found'') (uni ''Template '' @ template_id @ uni '' not found'')
       \<and> (\<forall>w'. regenerate_template svc w' template_id = regenerate_template svc w template_id)"
proof -
  have "uni '' not found'' = uni '' '' @ uni ''not found'' @ []"
    by (simp add: uni_def)
  then have "uni ''Template '' @ template_id @ uni '' not found''
      = (uni ''Template '' @ template_id @ uni '' '') @ uni ''not found'' @ []"
    by simp
  then have "str_in (uni ''not found'') (uni ''Template '' @ template_id @ uni '' not found'')"
    by (simp only: str_in_appendI)
  then show ?thesis
    using assms by (simp add: regenerate_template_def get_template_def)
qed

theorem regenerate_unknown_id_witness:
  "templates new_template_service (uni ''no-such-id'') = None
   \<and> regenerate_template new_template_service world_error (uni ''no-such-id'')
       = (\<lparr>success = False, template = None,
           error = Some (uni ''Template '' @ uni ''no-such-id'' @ uni '' not found''),
           generation_time = 0\<rparr>, new_template_service)
   \<and> regenerate_template new_template_service world_down (uni ''no-such-id'')
       = regenerate_template new_template_service world_error (uni ''no-such-id'')"
proof -
  have none: "templates new_template_service (uni ''no-such-id'') = None"
    by (simp add: new_template_service_def)
  show ?thesis
    using regenerate_unknown_id [OF none, of world_error] none by metis
qed

section \<open>Email component extraction\<close>


lemma extract_unfold:
  "extract_email_components html =
     (let c1 = (case first_match subject_patterns html of
                  None \<Rightarrow> default_components
                | Some gs \<Rightarrow> default_components
                    (''subject'' \<mapsto> take 100 (re_sub tag_pattern [] (strip (hd gs)))));
          c2 = (case first_match sender_patterns html of
                  None \<Rightarrow> c1
                | Some gs \<Rightarrow>
                    c1(''sender_name'' \<mapsto> strip (hd gs), ''sender_email'' \<mapsto> strip (hd (tl gs))))
      in if c2 ''sender_email'' = Some (uni ''security@example.com'')
         then generate_realistic_sender html c2 else c2)"
  by (simp add: extract_email_components_def set_subject_eq set_sender_eq Let_def)

lemma pick_industry_cases:
  "pick_industry ms content_lower \<in> (\<lambda>(keywords, name, email). (name, email)) ` set ms
     \<union> {(uni ''Support Team'', uni ''support@fake-secureservices.net'')}"
  by (induction ms content_lower rule: pick_industry.induct) auto














lemma pick_industry_not_default:
  "snd (pick_industry industry_mappings content_lower) \<noteq> uni ''security@example.com''"
proof -
  have "\<forall>p \<in> (\<lambda>(keywords, name, email). (name, email)) ` set industry_mappings
         \<union> {(uni ''Support Team'', uni ''support@fake-secureservices.net'')}.
          snd p \<noteq> uni ''security@example.com''"
    by (simp add: industry_mappings_def uni_def)
  then show ?thesis
    using pick_industry_cases [of industry_mappings content_lower] by blast
qed

text \<open>
  Claim C10. Industry inference is gated on the sender address being equal to the built-in
  default \<open>security@example.com\<close>, not on whether a sender pattern matched: when a sender
  pattern matches and the address it captures is, after trimming, exactly that default, the
  matched name and address are both replaced by the pair that the keyword groups (or the
  generic fallback) select, and the resulting address is never the default.
\<close>

theorem default_address_triggers_inference:
  assumes "first_match sender_patterns html = Some gs"
    and "strip (hd (tl gs)) = uni ''security@example.com''"
  shows "extract_email_components html ''sender_name''
           = Some (fst (pick_industry industry_mappings (lower html)))
       \<and> extract_email_components html ''sender_email''
           = Some (snd (pick_industry industry_mappings (lower html)))
       \<and> extract_email_components html ''sender_email'' \<noteq> Some (uni ''security@example.com'')"
  using assms pick_industry_not_default [of "lower html"]
  by (simp add: extract_unfold Let_def generate_realistic_sender_def split_beta)

lemma jane_sender:
  "first_match sender_patterns jane_html = Some [uni ''Jane Doe '', uni ''security@example.com'']"
  by (simp add: jane_html_def sender_patterns_def lit_def plus_def uni_def is_space_def not_in_def
      between_def)

lemma jane_inference:
  "pick_industry industry_mappings (lower jane_html)
     = (uni ''Support Team'', uni ''support@fake-secureservices.net'')"
  by (simp add: jane_html_def industry_mappings_def uni_def lower_def lower_cp_def)

theorem default_address_triggers_inference_witness:
  "first_match sender_patterns jane_html = Some [uni ''Jane Doe '', uni ''security@example.com'']
   \<and> strip (hd (tl [uni ''Jane Doe '', uni ''security@example.com''])) = uni ''security@example.com''
   \<and> extract_email_components jane_html ''sender_name'' = Some (uni ''Support Team'')
   \<and> extract_email_components jane_html ''sender_email''
       = Some (uni ''support@fake-secureservices.net'')"
proof -
  have s: "strip (hd (tl [uni ''Jane Doe '', uni ''security@example.com'']))
      = uni ''security@example.com''"
    by (simp add: strip_def uni_def is_space_def)
  show ?thesis
    using default_address_triggers_inference [OF jane_sender s] jane_sender s
    by (simp add: jane_inference)
qed

section \<open>HTML extraction without a code block\<close>

lemma find_start_spec:
  assumes "acc = - 1 \<or> 0 \<le> acc"
  shows "(find_start ms text acc = - 1
            \<longleftrightarrow> acc = - 1 \<and> (\<forall>m \<in> set ms. str_find m text = - 1))
       \<and> (find_start ms text acc \<noteq> - 1 \<longrightarrow>
            0 \<le> find_start ms text acc
            \<and> (find_start ms text acc = acc
                \<or> (\<exists>m \<in> set ms. find_start ms text acc = str_find m text))
            \<and> (acc \<noteq> - 1 \<longrightarrow> find_start ms text acc \<le> acc)
            \<and> (\<forall>m \<in> set ms. str_find m text \<noteq> - 1 \<longrightarrow>
                  find_start ms text acc \<le> str_find m text))"
  using assms
proof (induction ms arbitrary: acc)
  case Nil
  then show ?case by auto
next
  case (Cons m ms)
  let ?pos = "str_find m text"
  have b: "?pos = - 1 \<or> 0 \<le> ?pos" using str_find_bounds [of m "text"] by auto
  show ?case
  proof (cases "?pos \<noteq> - 1 \<and> (acc = - 1 \<or> ?pos < acc)")
    case True
    then have eq: "find_start (m # ms) text acc = find_start ms text ?pos"
      by (simp add: Let_def)
    have "?pos = - 1 \<or> 0 \<le> ?pos" by (rule b)
    from Cons.IH [OF this] True Cons.prems show ?thesis
      unfolding eq by (auto; force)
  next
    case False
    then have eq: "find_start (m # ms) text acc = find_start ms text acc"
      by (auto simp: Let_def)
    from Cons.IH [OF Cons.prems] False Cons.prems b show ?thesis
      unfolding eq by (auto; force)
  qed
qed

lemma start_markers_nonempty: "\<forall>m \<in> set start_markers. m \<noteq> []"
  by (simp add: start_markers_def uni_def)

lemma find_start_earliest:
  assumes "find_start start_markers text (- 1) \<noteq> - 1"
  shows "0 \<le> find_start start_markers text (- 1)
       \<and> (\<exists>m \<in> set start_markers. prefix m (drop (nat (find_start start_markers text (- 1))) text))
       \<and> (\<forall>m \<in> set start_markers. \<forall>j < nat (find_start start_markers text (- 1)).
             \<not> prefix m (drop j text))"
proof -
  let ?sp = "find_start start_markers text (- 1)"
  note spec = find_start_spec [of "- 1" start_markers "text", simplified]
  have nn: "0 \<le> ?sp" using spec assms by blast
  obtain m0 where m0: "m0 \<in> set start_markers" "?sp = str_find m0 text"
    using spec assms by force
  have ex: "prefix m0 (drop (nat ?sp) text)"
    using str_find_first [of m0 "text"] m0 assms by simp
  have "\<not> prefix m (drop j text)" if m: "m \<in> set start_markers" and j: "j < nat ?sp" for m j
  proof (cases "str_find m text = - 1")
    case True
    then have "\<not> str_in m text" by (simp add: str_find_none)
    then show ?thesis
      using start_markers_nonempty m by (intro not_str_in_drop) auto
  next
    case False
    then have "?sp \<le> str_find m text" using spec assms m by blast
    then have "j < nat (str_find m text)" using j by linarith
    then show ?thesis using str_find_first [OF False] by blast
  qed
  then show ?thesis using nn m0(1) ex by blast
qed

lemma find_start_none:
  "find_start start_markers text (- 1) = - 1 \<longleftrightarrow> (\<forall>m \<in> set start_markers. \<not> str_in m text)"
  using find_start_spec [of "- 1" start_markers "text"] by (simp add: str_find_none)

lemma lower_markers:
  "lower (uni ''<html'') = uni ''<html''" "lower (uni ''<HTML'') = uni ''<html''"
  by (simp_all add: lower_def lower_cp_def uni_def)

lemma start_found_gate:
  assumes "find_start start_markers text (- 1) \<noteq> - 1"
  shows "str_in (uni ''<!DOCTYPE'') text \<or> str_in (uni ''<html'') (lower text)"
proof -
  obtain m where m: "m \<in> set start_markers" "str_in m text"
    using assms find_start_none [of "text"] by blast
  then consider "m = uni ''<!DOCTYPE''" | "m = uni ''<html''" | "m = uni ''<HTML''"
    by (auto simp: start_markers_def)
  then show ?thesis
  proof cases
    case 1
    with m show ?thesis by simp
  next
    case 2
    with m str_in_lower [of m "text"] show ?thesis by (simp add: lower_markers)
  next
    case 3
    with m str_in_lower [of m "text"] show ?thesis by (simp add: lower_markers)
  qed
qed

lemma find_end_eq:
  "find_end end_markers text =
     (if str_in (uni ''</html>'') text then str_rfind (uni ''</html>'') text + 7
      else if str_in (uni ''</HTML>'') text then str_rfind (uni ''</HTML>'') text + 7
      else - 1)"
  by (simp add: end_markers_def Let_def str_rfind_none uni_def)

text \<open>
  Claim C4, as amended. When no code-block pattern matches, \<open>extract_html_from_response\<close>
  takes as start boundary the earliest position at which one of \<open><!DOCTYPE\<close>, \<open><html\<close>,
  \<open><HTML\<close> occurs (there is none exactly when none of the three occurs), and as end
  boundary the end of the last occurrence of \<open></html>\<close> when \<open></html>\<close> occurs at all,
  otherwise the end of the last occurrence of \<open></HTML>\<close>; when both boundaries exist it
  returns the trimmed slice from the start boundary to the end boundary, the closing tag
  included, and otherwise the not-found value. (That the text contains \<open><!DOCTYPE\<close> or,
  lowered, \<open><html\<close> follows from the existence of a start boundary.)
\<close>

theorem extract_html_direct:
  assumes "first_match fence_patterns text = None"
  shows "extract_html_from_response text
           = (if find_start start_markers text (- 1) \<noteq> - 1 \<and> find_end end_markers text \<noteq> - 1
              then Some (strip (slice text (find_start start_markers text (- 1))
                                  (find_end end_markers text)))
              else None)
       \<and> (find_start start_markers text (- 1) = - 1
            \<longleftrightarrow> (\<forall>m \<in> set start_markers. \<not> str_in m text))
       \<and> (find_start start_markers text (- 1) \<noteq> - 1 \<longrightarrow>
            0 \<le> find_start start_markers text (- 1)
            \<and> (\<exists>m \<in> set start_markers.
                  prefix m (drop (nat (find_start start_markers text (- 1))) text))
            \<and> (\<forall>m \<in> set start_markers. \<forall>j < nat (find_start start_markers text (- 1)).
                  \<not> prefix m (drop j text)))
       \<and> find_end end_markers text
           = (if str_in (uni ''</html>'') text then str_rfind (uni ''</html>'') text + 7
              else if str_in (uni ''</HTML>'') text then str_rfind (uni ''</HTML>'') text + 7
              else - 1)
       \<and> (\<forall>w. str_in w text \<longrightarrow>
             0 \<le> str_rfind w text
             \<and> prefix w (drop (nat (str_rfind w text)) text)
             \<and> (\<forall>j. nat (str_rfind w text) < j \<and> j \<le> length text \<longrightarrow>
                   \<not> prefix w (drop j text)))"
proof -
  have ext: "extract_html_from_response text
           = (if find_start start_markers text (- 1) \<noteq> - 1 \<and> find_end end_markers text \<noteq> - 1
              then Some (strip (slice text (find_start start_markers text (- 1))
                                  (find_end end_markers text)))
              else None)"
    using assms start_found_gate [of "text"]
    by (auto simp: extract_html_from_response_def Let_def)
  have last: "0 \<le> str_rfind w text
             \<and> prefix w (drop (nat (str_rfind w text)) text)
             \<and> (\<forall>j. nat (str_rfind w text) < j \<and> j \<le> length text \<longrightarrow>
                   \<not> prefix w (drop j text))" if "str_in w text" for w
  proof -
    have "str_rfind w text \<noteq> - 1" using that by (simp add: str_rfind_none)
    then show ?thesis
      using str_rfind_last [of w "text"] str_rfind_bounds [of w "text"] by auto
  qed
  show ?thesis
    using ext find_start_none [of "text"] find_start_earliest [of "text"] find_end_eq [of "text"] last
    by blast
qed

lemma chatty_no_fence: "first_match fence_patterns chatty_html = None"
  by (simp add: chatty_html_def fence_patterns_def lit_def uni_def any_char_def)

theorem extract_html_direct_witness:
  "first_match fence_patterns chatty_html = None
   \<and> extract_html_from_response chatty_html = Some (uni ''<html><body>Hi</body></html>'')"
proof -
  have "find_start start_markers chatty_html (- 1) = 6"
    "find_end end_markers chatty_html = 34"
    by (simp_all add: chatty_html_def start_markers_def end_markers_def uni_def Let_def)
  moreover have "strip (slice chatty_html 6 34) = uni ''<html><body>Hi</body></html>''"
    by (simp add: chatty_html_def uni_def slice_def strip_def is_space_def)
  ultimately show ?thesis
    using extract_html_direct [OF chatty_no_fence] chatty_no_fence by simp
qed

text \<open>
  The claim as stated fails where a lower-case closing tag is followed by an upper-case one:
  the last closing tag of \<open>mixed_case_html\<close> is \<open></HTML>\<close> at position 15, and the
  result ends with the \<open></html>\<close> at position 7.
\<close>

lemma mixed_no_fence: "first_match fence_patterns mixed_case_html = None"
  by (simp add: mixed_case_html_def fence_patterns_def lit_def uni_def any_char_def)

lemma mixed_extract:
  "extract_html_from_response mixed_case_html = Some (uni ''<html>a</html>'')"
  by (simp add: extract_html_from_response_def mixed_no_fence)
     (simp add: mixed_case_html_def start_markers_def end_markers_def uni_def lower_def lower_cp_def
      Let_def slice_def strip_def is_space_def)

theorem extract_html_direct_counterexample:
  "first_match fence_patterns mixed_case_html = None
   \<and> str_in (uni ''<html'') (lower mixed_case_html)
   \<and> str_rfind (uni ''</html>'') mixed_case_html = 7
   \<and> str_rfind (uni ''</HTML>'') mixed_case_html = 15
   \<and> length mixed_case_html = 22
   \<and> extract_html_from_response mixed_case_html = Some (uni ''<html>a</html>'')
   \<and> extract_html_from_response mixed_case_html \<noteq> Some mixed_case_html"
  using mixed_no_fence mixed_extract
  by (simp add: mixed_case_html_def uni_def lower_def lower_cp_def Let_def)

section \<open>HTML extraction from a code block\<close>

lemma fence_marks: "\<forall>p \<in> set fence_patterns. marks p = 2"
  by (simp add: fence_patterns_def)

lemma fence_groups: "first_match fence_patterns s = Some gs \<Longrightarrow> \<exists>g. gs = [g]"
  using first_match_length [OF _ fence_marks, of s gs]
  by (cases gs) auto

lemma re_match_lit_only:
  "re_match (lit w) s = (if prefix (uni w) s then Some ([], drop (length w) s) else None)"
  using re_match_lit [of w "[]" s] by simp

lemma re_match_mark_lit:
  "re_match (Mark # lit w) s = (if prefix (uni w) s then Some ([s], drop (length w) s) else None)"
  by (simp add: re_match_lit_only)

lemma first_fence_match:
  fixes fence_open fence_close :: string
  assumes first_open: "\<forall>i < length pre. \<not> prefix (uni fence_open) (drop i (pre @ uni fence_open @ inner @ uni fence_close @ post))"
    and first_close: "\<forall>j < length inner. \<not> prefix (uni fence_close) (drop j (inner @ uni fence_close @ post))"
  shows "re_search (lit fence_open @ [Mark, Rep Lazy any_char, Mark] @ lit fence_close)
           (pre @ uni fence_open @ inner @ uni fence_close @ post)
         = Some ([inner @ uni fence_close @ post, uni fence_close @ post], post)"
proof -
  let ?p = "lit fence_open @ [Mark, Rep Lazy any_char, Mark] @ lit fence_close"
  let ?rest = "inner @ uni fence_close @ post"
  let ?s = "pre @ uni fence_open @ ?rest"
  have len: "length (uni w) = length w" for w by (simp add: uni_def)
  have close: "re_search (Mark # lit fence_close) ?rest = Some ([uni fence_close @ post], post)"
  proof (rule re_search_SomeI [of "length inner"])
    show "length inner \<le> length ?rest" by simp
    show "re_match (Mark # lit fence_close) (drop (length inner) ?rest) = Some ([uni fence_close @ post], post)"
      by (simp add: re_match_lit_only len)
    show "\<forall>j < length inner. re_match (Mark # lit fence_close) (drop j ?rest) = None"
      using first_close by (simp add: re_match_lit_only)
  qed
  have here: "re_match ?p (uni fence_open @ ?rest) = Some ([?rest, uni fence_close @ post], post)"
    using close by (simp add: re_match_lit lazy_any_eq_search len del: re_match.simps(7))
  show ?thesis
  proof (rule re_search_SomeI [of "length pre"])
    show "length pre \<le> length ?s" by simp
    show "re_match ?p (drop (length pre) ?s) = Some ([?rest, uni fence_close @ post], post)"
      using here by simp
    show "\<forall>j < length pre. re_match ?p (drop j ?s) = None"
      using first_open by (simp add: re_match_lit)
  qed
qed

lemma fence_needs_backticks:
  assumes "\<not> str_in (uni ''```'') s"
  shows "first_match fence_patterns s = None"
proof -
  have no: "re_search (lit w @ ps) s = None" if "prefix (uni ''```'') (uni w)" for w ps
  proof (cases "re_search (lit w @ ps) s")
    case None
    then show ?thesis .
  next
    case (Some res)
    then obtain k where k: "k \<le> length s" "re_match (lit w @ ps) (drop k s) = Some res"
      using re_search_SomeD by blast
    then have "prefix (uni w) (drop k s)"
      by (simp add: re_match_lit split: if_splits)
    then have "prefix (uni ''```'') (drop k s)"
      using that prefix_order.trans by blast
    then have "str_in (uni ''```'') s"
      using k(1) by (auto simp: str_in_drop_iff)
    with assms show ?thesis by simp
  qed
  have p: "prefix (uni ''```'') (uni ''```html\<newline>'')" "prefix (uni ''```'') (uni ''```html'')"
    "prefix (uni ''```'') (uni ''```\<newline>'')" "prefix (uni ''```'') (uni ''```'')"
    by (simp_all add: uni_def)
  show ?thesis
    by (simp add: fence_patterns_def no [OF p(1)] no [OF p(2)] no [OF p(3)] no [OF p(4)])
qed


lemma between_append [simp]: "between (x @ y) y = x"
  by (simp add: between_def)

lemma length_uni [simp]: "length (uni w) = length w"
  by (simp add: uni_def)

lemma prefix_append_drop:
  "prefix (a @ b) s \<longleftrightarrow> prefix a s \<and> prefix b (drop (length a) s)"
  by (auto simp: prefix_def)

lemma first_doc_fence_match:
  fixes fo dstart dend fc :: string
  assumes first_open: "\<forall>i < length pre. \<not> prefix (uni fo @ uni dstart)
        (drop i (pre @ uni fo @ uni dstart @ mid @ uni dend @ uni fc @ post))"
    and first_close: "\<forall>j < length mid. \<not> prefix (uni dend @ uni fc)
        (drop j (mid @ uni dend @ uni fc @ post))"
  shows "re_search (lit fo @ [Mark] @ lit dstart @ [Rep Lazy any_char] @ lit dend @ [Mark] @ lit fc)
           (pre @ uni fo @ uni dstart @ mid @ uni dend @ uni fc @ post)
         = Some ([uni dstart @ mid @ uni dend @ uni fc @ post, uni fc @ post], post)"
proof -
  let ?p = "lit fo @ [Mark] @ lit dstart @ [Rep Lazy any_char] @ lit dend @ [Mark] @ lit fc"
  let ?q = "lit dend @ [Mark] @ lit fc"
  let ?rest = "mid @ uni dend @ uni fc @ post"
  let ?s = "pre @ uni fo @ uni dstart @ ?rest"
  have q: "re_match ?q u
      = (if prefix (uni dend @ uni fc) u
         then Some ([drop (length dend) u], drop (length fc) (drop (length dend) u)) else None)" for u
    by (simp add: re_match_lit re_match_lit_only prefix_append_drop)
  have close: "re_search ?q ?rest = Some ([uni fc @ post], post)"
  proof (rule re_search_SomeI [of "length mid"])
    show "length mid \<le> length ?rest" by simp
    show "re_match ?q (drop (length mid) ?rest) = Some ([uni fc @ post], post)"
      unfolding q by simp
    show "\<forall>j < length mid. re_match ?q (drop j ?rest) = None"
      unfolding q using first_close by simp
  qed
  have p: "re_match ?p u
      = (if prefix (uni fo @ uni dstart) u
         then (case re_search ?q (drop (length dstart) (drop (length fo) u)) of
                 None \<Rightarrow> None
               | Some (ms, r) \<Rightarrow> Some (drop (length fo) u # ms, r))
         else None)" for u
    by (simp add: re_match_lit lazy_any_eq_search prefix_append_drop del: re_match.simps(7))
  show ?thesis
  proof (rule re_search_SomeI [of "length pre"])
    show "length pre \<le> length ?s" by simp
    show "re_match ?p (drop (length pre) ?s)
        = Some ([uni dstart @ ?rest, uni fc @ post], post)"
      unfolding p using close by simp
    show "\<forall>j < length pre. re_match ?p (drop j ?s) = None"
      unfolding p using first_open by simp
  qed
qed


lemma fence_nth:
  "fence_patterns ! 0 = lit ''```html\<newline>'' @ [Mark, Rep Lazy any_char, Mark] @ lit ''\<newline>```''"
  "fence_patterns ! 1 = lit ''```html'' @ [Mark, Rep Lazy any_char, Mark] @ lit ''```''"
  "fence_patterns ! 2 = lit ''```\<newline>'' @ [Mark] @ lit ''<!DOCTYPE'' @ [Rep Lazy any_char]
      @ lit ''</html>'' @ [Mark] @ lit ''\<newline>```''"
  "fence_patterns ! 3 = lit ''```'' @ [Mark] @ lit ''<!DOCTYPE'' @ [Rep Lazy any_char]
      @ lit ''</html>'' @ [Mark] @ lit ''```''"
  "length fence_patterns = 4"
  by (simp_all add: fence_patterns_def)

lemma extract_first_match:
  assumes "i < length fence_patterns"
    and "\<forall>j < i. re_search (fence_patterns ! j) s = None"
    and "re_search (fence_patterns ! i) s = Some (ms, r)"
  shows "\<exists>g. groups ms = [g] \<and> extract_html_from_response s = Some (strip g)"
proof -
  have fm: "first_match fence_patterns s = Some (groups ms)"
    using assms by (rule first_match_nth)
  then obtain g where "groups ms = [g]" using fence_groups by blast
  then show ?thesis using fm by (simp add: extract_html_from_response_def)
qed

text \<open>
  Claim C3, as amended. \<open>extract_html_from_response\<close> tries the four code-block patterns
  in their fixed order, and the first pattern that matches anywhere in the text wins: its
  captured text, trimmed of whitespace at both ends, is returned without regard to the
  patterns behind it. Each pattern is a leftmost, non-greedy search in which the dot matches
  newlines too: the match starts at the first opening fence and the captured text ends at the
  first closing fence behind it (for the two patterns with a bare fence, the capture runs from
  \<open><!DOCTYPE\<close> to the first \<open></html>\<close> that is followed by the closing fence). On a
  text without a fence and without a \<open><!DOCTYPE\<close> or (case-insensitive) \<open><html\<close> marker
  the result is the not-found value.
\<close>

theorem extract_html_fenced:
  "(\<forall>i ms r. i < length fence_patterns
        \<and> (\<forall>j < i. re_search (fence_patterns ! j) s = None)
        \<and> re_search (fence_patterns ! i) s = Some (ms, r)
      \<longrightarrow> (\<exists>g. groups ms = [g] \<and> extract_html_from_response s = Some (strip g)))
   \<and> (\<forall>pre inner post.
        (\<forall>i < length pre. \<not> prefix (uni ''```html\<newline>'')
            (drop i (pre @ uni ''```html\<newline>'' @ inner @ uni ''\<newline>```'' @ post)))
        \<and> (\<forall>j < length inner. \<not> prefix (uni ''\<newline>```'')
            (drop j (inner @ uni ''\<newline>```'' @ post)))
      \<longrightarrow> map_option (groups \<circ> fst) (re_search (fence_patterns ! 0)
              (pre @ uni ''```html\<newline>'' @ inner @ uni ''\<newline>```'' @ post)) = Some [inner]
          \<and> extract_html_from_response
              (pre @ uni ''```html\<newline>'' @ inner @ uni ''\<newline>```'' @ post)
              = Some (strip inner))
   \<and> (\<forall>pre inner post.
        (\<forall>i < length pre. \<not> prefix (uni ''```html'')
            (drop i (pre @ uni ''```html'' @ inner @ uni ''```'' @ post)))
        \<and> (\<forall>j < length inner. \<not> prefix (uni ''```'') (drop j (inner @ uni ''```'' @ post)))
      \<longrightarrow> map_option (groups \<circ> fst) (re_search (fence_patterns ! 1)
              (pre @ uni ''```html'' @ inner @ uni ''```'' @ post)) = Some [inner])
   \<and> (\<forall>pre mid post.
        (\<forall>i < length pre. \<not> prefix (uni ''```\<newline>'' @ uni ''<!DOCTYPE'')
            (drop i (pre @ uni ''```\<newline>'' @ uni ''<!DOCTYPE'' @ mid @ uni ''</html>''
                       @ uni ''\<newline>```'' @ post)))
        \<and> (\<forall>j < length mid. \<not> prefix (uni ''</html>'' @ uni ''\<newline>```'')
            (drop j (mid @ uni ''</html>'' @ uni ''\<newline>```'' @ post)))
      \<longrightarrow> map_option (groups \<circ> fst) (re_search (fence_patterns ! 2)
              (pre @ uni ''```\<newline>'' @ uni ''<!DOCTYPE'' @ mid @ uni ''</html>''
                 @ uni ''\<newline>```'' @ post))
            = Some [uni ''<!DOCTYPE'' @ mid @ uni ''</html>''])
   \<and> (\<forall>pre mid post.
        (\<forall>i < length pre. \<not> prefix (uni ''```'' @ uni ''<!DOCTYPE'')
            (drop i (pre @ uni ''```'' @ uni ''<!DOCTYPE'' @ mid @ uni ''</html>''
                       @ uni ''```'' @ post)))
        \<and> (\<forall>j < length mid. \<not> prefix (uni ''</html>'' @ uni ''```'')
            (drop j (mid @ uni ''</html>'' @ uni ''```'' @ post)))
      \<longrightarrow> map_option (groups \<circ> fst) (re_search (fence_patterns ! 3)
              (pre @ uni ''```'' @ uni ''<!DOCTYPE'' @ mid @ uni ''</html>'' @ uni ''```'' @ post))
            = Some [uni ''<!DOCTYPE'' @ mid @ uni ''</html>''])
   \<and> (\<not> str_in (uni ''```'') s \<and> \<not> str_in (uni ''<!DOCTYPE'') s
        \<and> \<not> str_in (uni ''<html'') (lower s)
      \<longrightarrow> extract_html_from_response s = None)"
proof (intro conjI allI impI)
  fix i ms r
  assume "i < length fence_patterns
        \<and> (\<forall>j < i. re_search (fence_patterns ! j) s = None)
        \<and> re_search (fence_patterns ! i) s = Some (ms, r)"
  then show "\<exists>g. groups ms = [g] \<and> extract_html_from_response s = Some (strip g)"
    using extract_first_match by blast
next
  fix pre inner post
  let ?s = "pre @ uni ''```html\<newline>'' @ inner @ uni ''\<newline>```'' @ post"
  assume h: "(\<forall>i < length pre. \<not> prefix (uni ''```html\<newline>'') (drop i ?s))
        \<and> (\<forall>j < length inner. \<not> prefix (uni ''\<newline>```'')
            (drop j (inner @ uni ''\<newline>```'' @ post)))"
  have m: "re_search (fence_patterns ! 0) ?s
      = Some ([inner @ uni ''\<newline>```'' @ post, uni ''\<newline>```'' @ post], post)"
    unfolding fence_nth using h by (intro first_fence_match) blast+
  then show "map_option (groups \<circ> fst) (re_search (fence_patterns ! 0) ?s) = Some [inner]"
    by simp
  have "\<exists>g. groups [inner @ uni ''\<newline>```'' @ post, uni ''\<newline>```'' @ post] = [g]
          \<and> extract_html_from_response ?s = Some (strip g)"
    using m by (intro extract_first_match [of 0]) (simp_all add: fence_nth)
  then show "extract_html_from_response ?s = Some (strip inner)"
    by simp
next
  fix pre inner post
  let ?s = "pre @ uni ''```html'' @ inner @ uni ''```'' @ post"
  assume h: "(\<forall>i < length pre. \<not> prefix (uni ''```html'') (drop i ?s))
        \<and> (\<forall>j < length inner. \<not> prefix (uni ''```'') (drop j (inner @ uni ''```'' @ post)))"
  have "re_search (fence_patterns ! 1) ?s
      = Some ([inner @ uni ''```'' @ post, uni ''```'' @ post], post)"
    unfolding fence_nth using h by (intro first_fence_match) blast+
  then show "map_option (groups \<circ> fst) (re_search (fence_patterns ! 1) ?s) = Some [inner]"
    by simp
next
  fix pre mid post
  let ?s = "pre @ uni ''```\<newline>'' @ uni ''<!DOCTYPE'' @ mid @ uni ''</html>''
                       @ uni ''\<newline>```'' @ post"
  assume h: "(\<forall>i < length pre. \<not> prefix (uni ''```\<newline>'' @ uni ''<!DOCTYPE'') (drop i ?s))
        \<and> (\<forall>j < length mid. \<not> prefix (uni ''</html>'' @ uni ''\<newline>```'')
            (drop j (mid @ uni ''</html>'' @ uni ''\<newline>```'' @ post)))"
  have "re_search (fence_patterns ! 2) ?s
      = Some ([uni ''<!DOCTYPE'' @ mid @ uni ''</html>'' @ uni ''\<newline>```'' @ post,
               uni ''\<newline>```'' @ post], post)"
    unfolding fence_nth using h by (intro first_doc_fence_match) blast+
  moreover have "between (uni ''<!DOCTYPE'' @ mid @ uni ''</html>'' @ uni ''\<newline>```'' @ post)
      (uni ''\<newline>```'' @ post) = uni ''<!DOCTYPE'' @ mid @ uni ''</html>''"
    using between_append [of "uni ''<!DOCTYPE'' @ mid @ uni ''</html>''" "uni ''\<newline>```'' @ post"]
    by simp
  ultimately show "map_option (groups \<circ> fst) (re_search (fence_patterns ! 2) ?s)
      = Some [uni ''<!DOCTYPE'' @ mid @ uni ''</html>'']"
    by simp
next
  fix pre mid post
  let ?s = "pre @ uni ''```'' @ uni ''<!DOCTYPE'' @ mid @ uni ''</html>'' @ uni ''```'' @ post"
  assume h: "(\<forall>i < length pre. \<not> prefix (uni ''```'' @ uni ''<!DOCTYPE'') (drop i ?s))
        \<and> (\<forall>j < length mid. \<not> prefix (uni ''</html>'' @ uni ''```'')
            (drop j (mid @ uni ''</html>'' @ uni ''```'' @ post)))"
  have "re_search (fence_patterns ! 3) ?s
      = Some ([uni ''<!DOCTYPE'' @ mid @ uni ''</html>'' @ uni ''```'' @ post,
               uni ''```'' @ post], post)"
    unfolding fence_nth using h by (intro first_doc_fence_match) blast+
  moreover have "between (uni ''<!DOCTYPE'' @ mid @ uni ''</html>'' @ uni ''```'' @ post)
      (uni ''```'' @ post) = uni ''<!DOCTYPE'' @ mid @ uni ''</html>''"
    using between_append [of "uni ''<!DOCTYPE'' @ mid @ uni ''</html>''" "uni ''```'' @ post"]
    by simp
  ultimately show "map_option (groups \<circ> fst) (re_search (fence_patterns ! 3) ?s)
      = Some [uni ''<!DOCTYPE'' @ mid @ uni ''</html>'']"
    by simp
next
  assume "\<not> str_in (uni ''```'') s \<and> \<not> str_in (uni ''<!DOCTYPE'') s
        \<and> \<not> str_in (uni ''<html'') (lower s)"
  then show "extract_html_from_response s = None"
    using fence_needs_backticks [of s] by (simp add: extract_html_from_response_def)
qed


theorem extract_html_fenced_witness:
  "extract_html_from_response
     (reply_pre @ uni ''```html\<newline>'' @ reply_inner @ uni ''\<newline>```'' @ reply_post)
     = Some (uni ''<b>Hi</b>'')
   \<and> extract_html_from_response (uni ''no markup here'') = None"
proof -
  have 1: "\<forall>i < length reply_pre. \<not> prefix (uni ''```html\<newline>'')
      (drop i (reply_pre @ uni ''```html\<newline>'' @ reply_inner @ uni ''\<newline>```'' @ reply_post))"
    by (simp add: reply_pre_def uni_def All_less_Suc eval_nat_numeral)
  have 2: "\<forall>j < length reply_inner. \<not> prefix (uni ''\<newline>```'')
      (drop j (reply_inner @ uni ''\<newline>```'' @ reply_post))"
    by (simp add: reply_inner_def uni_def All_less_Suc eval_nat_numeral)
  have 3: "\<not> str_in (uni ''```'') (uni ''no markup here'')
      \<and> \<not> str_in (uni ''<!DOCTYPE'') (uni ''no markup here'')
      \<and> \<not> str_in (uni ''<html'') (lower (uni ''no markup here''))"
    by (simp add: uni_def lower_def lower_cp_def)
  have 4: "strip reply_inner = uni ''<b>Hi</b>''"
    by (simp add: reply_inner_def strip_def uni_def is_space_def)
  have "extract_html_from_response
     (reply_pre @ uni ''```html\<newline>'' @ reply_inner @ uni ''\<newline>```'' @ reply_post)
     = Some (strip reply_inner)"
    using extract_html_fenced [of "[]"] 1 2 by blast
  moreover have "extract_html_from_response (uni ''no markup here'') = None"
    using extract_html_fenced [of "uni ''no markup here''"] 3 by blast
  ultimately show ?thesis
    by (simp add: 4)
qed

text \<open>
  The claim as stated calls the search maximal. On a response with two code blocks the code
  returns the content of the first block, while the maximal reading of the same patterns
  captures everything up to the last closing fence.
\<close>

lemma two_fences_lazy:
  "extract_html_from_response two_fences = Some (uni ''<p>A</p>'')"
  by (simp add: extract_html_from_response_def two_fences_def fence_patterns_def lit_def uni_def
      any_char_def between_def strip_def is_space_def)

lemma two_fences_maximal:
  "first_match (map maximal fence_patterns) two_fences
     = Some [uni ''<p>A</p>\<newline>```\<newline>and\<newline>```\<newline><p>B</p>'']"
  by (simp add: two_fences_def fence_patterns_def lit_def uni_def any_char_def between_def)

theorem extract_html_fenced_counterexample:
  "extract_html_from_response two_fences = Some (uni ''<p>A</p>'')
   \<and> first_match (map maximal fence_patterns) two_fences
       = Some [uni ''<p>A</p>\<newline>```\<newline>and\<newline>```\<newline><p>B</p>'']
   \<and> strip (uni ''<p>A</p>\<newline>```\<newline>and\<newline>```\<newline><p>B</p>'') \<noteq> uni ''<p>A</p>''"
  using two_fences_lazy two_fences_maximal
  by (simp add: strip_def uni_def is_space_def)

section \<open>The fallback template through extraction and validation\<close>

text \<open>
  The piece-wise check is sound: it is kept by concatenation, and a checked text has no
  occurrence of the word, also not one that runs over its end into the text that follows.
\<close>

lemma mism_not_prefix: "mism p t \<Longrightarrow> \<not> prefix p t"
  by (induction p t rule: mism.induct) auto

lemma mism_append: "mism p t \<Longrightarrow> mism p (t @ u)"
  by (induction p t rule: mism.induct) auto

lemma piv_scan_seen: "piv_scan pv rpres post seen s \<Longrightarrow> piv_scan pv rpres post (seen @ extra) s"
proof (induction s arbitrary: seen)
  case Nil
  then show ?case by simp
next
  case (Cons x xs)
  have "piv_scan pv rpres post ((x # seen) @ extra) xs"
    using Cons.prems by (intro Cons.IH) simp
  moreover have "list_all (\<lambda>rp. mism rp seen) rpres \<Longrightarrow> list_all (\<lambda>rp. mism rp (seen @ extra)) rpres"
    by (auto simp: list_all_iff mism_append)
  ultimately show ?case
    using Cons.prems by auto
qed

lemma piv_scan_append:
  "piv_scan pv rpres post seen a \<Longrightarrow> piv_scan pv rpres post (rev a @ seen) b
     \<Longrightarrow> piv_scan pv rpres post seen (a @ b)"
proof (induction a arbitrary: seen)
  case Nil
  then show ?case by simp
next
  case (Cons x xs)
  have "piv_scan pv rpres post (x # seen) (xs @ b)"
    using Cons.prems by (intro Cons.IH) simp_all
  then show ?case
    using Cons.prems(1) by (auto simp: mism_append)
qed

lemma piv_ok_append:
  "piv_ok pv rpres post a \<Longrightarrow> piv_ok pv rpres post b \<Longrightarrow> piv_ok pv rpres post (a @ b)"
  unfolding piv_ok_def
  using piv_scan_append [of pv rpres post "[]" a b] piv_scan_seen [of pv rpres post "[]" b "rev a"]
  by simp

lemma piv_ok_concat:
  "list_all (piv_ok pv rpres post) pieces \<Longrightarrow> piv_ok pv rpres post (concat pieces)"
  by (induction pieces) (simp_all add: piv_ok_append, simp add: piv_ok_def)

lemma piv_scan_free: "pv \<notin> set s \<Longrightarrow> piv_scan pv rpres post seen s"
  by (induction s arbitrary: seen) auto

lemma piv_ok_free: "pv \<notin> set s \<Longrightarrow> piv_ok pv rpres post s"
  by (simp add: piv_ok_def piv_scan_free)

lemma piv_scan_at:
  "piv_scan pv rpres post seen (a @ pv # b) \<Longrightarrow>
     mism post b \<or> list_all (\<lambda>rp. mism rp (rev a @ seen)) rpres"
proof (induction a arbitrary: seen)
  case Nil
  then show ?case by simp
next
  case (Cons x xs)
  then have "piv_scan pv rpres post (x # seen) (xs @ pv # b)" by simp
  from Cons.IH [OF this] show ?case by simp
qed

text \<open>No occurrence of the word starts inside a checked text, whatever follows it.\<close>

lemma piv_ok_no_occurrence:
  assumes ok: "piv_ok pv rpres post xs"
    and pre: "rev pre \<in> set rpres"
    and ys: "pv \<notin> set (take (length pre) ys)"
    and j: "j < length xs"
  shows "\<not> prefix (pre @ pv # post) (drop j (xs @ ys))"
proof
  assume "prefix (pre @ pv # post) (drop j (xs @ ys))"
  then obtain c where c: "drop j (xs @ ys) = pre @ pv # post @ c"
    by (auto simp: prefix_def)
  let ?p = "take j xs" and ?q = "drop j xs"
  have q: "?q @ ys = pre @ (pv # post @ c)"
    using c j by simp
  have qne: "?q \<noteq> []" using j by simp
  from q consider us where "?q = pre @ us" "us @ ys = pv # post @ c"
    | us where "?q @ us = pre" "ys = us @ pv # post @ c"
    by (auto simp: append_eq_append_conv2)
  then show False
  proof cases
    case 1
    show False
    proof (cases us)
      case Nil
      with 1 have "ys = pv # post @ c" by simp
      then have "pv \<in> set (take (length pre) ys)"
        using 1 Nil qne by (cases pre) auto
      with ys show False by simp
    next
      case (Cons u b)
      with 1 have u: "u = pv" and bc: "b @ ys = post @ c" by simp_all
      have "xs = (?p @ pre) @ pv # b"
        using 1(1) Cons u by (metis append.assoc append_take_drop_id)
      then have "piv_scan pv rpres post [] ((?p @ pre) @ pv # b)"
        using ok by (simp add: piv_ok_def)
      then have "mism post b \<or> list_all (\<lambda>rp. mism rp (rev (?p @ pre) @ [])) rpres"
        by (rule piv_scan_at)
      then show False
      proof
        assume "mism post b"
        then have "mism post (b @ ys)" by (rule mism_append)
        then have "\<not> prefix post (b @ ys)" by (rule mism_not_prefix)
        then show False using bc by simp
      next
        assume "list_all (\<lambda>rp. mism rp (rev (?p @ pre) @ [])) rpres"
        then have "mism (rev pre) (rev (?p @ pre))" using pre by (auto simp: list_all_iff)
        then have "\<not> prefix (rev pre) (rev (?p @ pre))" by (rule mism_not_prefix)
        then show False by simp
      qed
    qed
  next
    case 2
    have "length us < length pre"
      using 2(1) qne by (metis length_append length_greater_0_conv less_add_same_cancel2 add.commute)
    then have "take (length pre) ys = us @ pv # take (length pre - Suc (length us)) (post @ c)"
      using 2(2) by (simp add: take_Cons')
    then have "pv \<in> set (take (length pre) ys)" by simp
    with ys show False by simp
  qed
qed

lemma piv_ok_not_str_in:
  assumes "piv_ok pv rpres post s" and "rev pre \<in> set rpres"
  shows "\<not> str_in (pre @ pv # post) s"
proof
  assume "str_in (pre @ pv # post) s"
  then obtain j where j: "j \<le> length s" "prefix (pre @ pv # post) (drop j s)"
    by (auto simp: str_in_drop_iff)
  then have "j < length s"
    by (cases "j = length s") auto
  then show False
    using piv_ok_no_occurrence [OF assms(1) assms(2), of "[]" j] j(2) by simp
qed

text \<open>
  The values put into the template are letters and blanks, so none of the characters the
  checks below look for can come from them.
\<close>

lemma wordy_not_in:
  "wordy s \<Longrightarrow> \<not> ((65 \<le> pv \<and> pv \<le> 90) \<or> (97 \<le> pv \<and> pv \<le> 122) \<or> pv = 32) \<Longrightarrow> pv \<notin> set s"
  by (auto simp: wordy_def list_all_iff)

lemma wordy_lower: "wordy s \<Longrightarrow> wordy (lower s)"
  by (induction s) (auto simp: wordy_def lower_def lower_cp_def)

lemma wordy_piv_ok:
  "wordy s \<Longrightarrow> \<not> ((65 \<le> pv \<and> pv \<le> 90) \<or> (97 \<le> pv \<and> pv \<le> 122) \<or> pv = 32)
     \<Longrightarrow> piv_ok pv rpres post s"
  by (rule piv_ok_free) (rule wordy_not_in)

lemma head_bang:
  assumes "wordy scen"
  shows "list_all (piv_ok 33 [[60]] [45, 45]) (fb_head scen)"
  using assms
  by (simp add: fb_head_def nl_def wordy_piv_ok) (simp add: piv_ok_def uni_def)

lemma uni_eq_iff [simp]: "uni a = uni b \<longleftrightarrow> a = b"
  unfolding uni_def by (rule inj_map_eq_map) (simp add: inj_on_def)

text \<open>
  The sender comment of the template is matched by the first sender pattern, with the name
  (and the blank after it) and the address as its two groups; the link is matched by the
  URL pattern, with the address of the link as its group.
\<close>

lemma sender_of_simps:
  "sender_of BANKING = (uni ''Security Department'', uni ''security@fake-firstnational-alerts.com'')"
  "sender_of HEALTHCARE = (uni ''Patient Services'', uni ''admin@fake-healthpartners.org'')"
  "sender_of ONLINE_RETAIL = (uni ''Customer Service'', uni ''orders@fake-ecommerce-orders.com'')"
  "sender_of TECHNOLOGY = (uni ''Account Security'', uni ''noreply@fake-techsupport.com'')"
  "sender_of GOVERNMENT = (uni ''Official Notice'', uni ''notifications@fake-government-alerts.gov'')"
  "sender_of EDUCATION = (uni ''IT Services'', uni ''support@fake-university-systems.edu'')"
  "sender_of INSURANCE = (uni ''Claims Department'', uni ''claims@fake-insurance-services.com'')"
  "sender_of RETAIL = (uni ''Customer Support'', uni ''service@fake-retailsupport.net'')"
  "sender_of CLOUD_SERVICE = (uni ''Security Team'', uni ''alerts@fake-cloudsecurity.org'')"
  "sender_of SOCIAL_MEDIA = (uni ''Account Safety'', uni ''security@fake-socialmedia.com'')"
  "sender_of SHIPPING_COMPANY = (uni ''Delivery Notice'', uni ''tracking@fake-shipping.com'')"
  by (simp_all add: sender_of_def get_fallback_sender_info_def industry_senders_def)

lemma from_comment_match:
  "\<exists>ms r. re_match (sender_patterns ! 0)
        (concat (fb_from (fst (sender_of ti)) (snd (sender_of ti))) @ rest) = Some (ms, r)
      \<and> groups ms = [fst (sender_of ti) @ [32], snd (sender_of ti)]"
  by (cases ti)
     (simp_all add: sender_of_simps sender_patterns_def fb_from_def nl_def lit_def plus_def uni_def
       is_space_def not_in_def between_def)

lemma create_fallback_template_request:
  "create_fallback_template (request_dict request)
     = fallback_doc (scenario_type request) (target_industry request)"
  by (simp add: create_fallback_template_def request_dict_def dict_get_def fallback_doc_def
      sender_of_def split_beta Let_def)

lemma wordy_scenario: "wordy (ScenarioType_value sc)"
  by (cases sc) (simp_all add: wordy_def uni_def)

lemma wordy_industry: "wordy (TargetIndustry_value ti)"
  by (cases ti) (simp_all add: wordy_def uni_def)

lemma wordy_slug: "wordy (slug_of (TargetIndustry_value ti))"
  using wordy_lower [OF wordy_industry, of ti]
  by (auto simp: slug_of_def wordy_def list_all_iff)

lemma wordy_name: "wordy (fst (sender_of ti))"
  by (cases ti) (simp_all add: sender_of_simps wordy_def uni_def)

lemma email_facts:
  "96 \<notin> set (snd (sender_of ti))"
  "61 \<notin> set (snd (sender_of ti))"
  "piv_ok 46 company_rpres (uni ''com'') (lower (snd (sender_of ti)))"
  "strip (snd (sender_of ti)) = snd (sender_of ti)"
  "snd (sender_of ti) \<noteq> uni ''security@example.com''"
  by (cases ti; simp add: sender_of_simps;
      simp add: uni_def lower_def lower_cp_def piv_ok_def company_rpres_def strip_def is_space_def)+

lemma name_strip: "strip (fst (sender_of ti) @ [32]) = fst (sender_of ti)"
  by (cases ti) (simp_all add: sender_of_simps uni_def strip_def is_space_def)

lemma link_match:
  "\<exists>ms. re_match url_pattern (concat (fb_link (slug_of (TargetIndustry_value ti))) @ rest)
           = Some (ms, rest)
      \<and> groups ms = [uni ''http://fake-'' @ slug_of (TargetIndustry_value ti)
                       @ uni ''-verification.com/verify'']"
  by (cases ti)
     (simp_all add: url_pattern_def fb_link_def slug_of_def lower_def lower_cp_def liti_def plus_def
       uni_def lower_ascii_def ci_eq_def not_in_def one_of_def between_def)

lemma wordy_lower_piv_ok:
  "wordy s \<Longrightarrow> \<not> ((65 \<le> pv \<and> pv \<le> 90) \<or> (97 \<le> pv \<and> pv \<le> 122) \<or> pv = 32)
     \<Longrightarrow> piv_ok pv rpres post (lower s)"
  by (rule wordy_piv_ok) (rule wordy_lower)

lemmas wordy_fields = wordy_scenario wordy_industry wordy_slug wordy_name

text \<open>
  The fixed pieces of the template: no backtick anywhere, no \<open>f=\<close> or \<open>F=\<close> outside the link,
  and no real company's domain in the lowered text.
\<close>

lemma piv_scan_skip:
  "x \<noteq> pv \<Longrightarrow> piv_scan pv rpres post seen (x # xs) = piv_scan pv rpres post (x # seen) xs"
  by simp

lemma piv_scan_at_pivot:
  "piv_scan pv rpres post seen (pv # xs) =
     ((mism post xs \<or> list_all (\<lambda>rp. mism rp seen) rpres) \<and> piv_scan pv rpres post (pv # seen) xs)"
  by simp

lemma doc_no_backtick: "96 \<notin> set (fallback_doc sc ti)"
  using wordy_not_in [OF wordy_scenario, of 96 sc] wordy_not_in [OF wordy_industry, of 96 ti]
    wordy_not_in [OF wordy_slug, of 96 ti] wordy_not_in [OF wordy_name, of 96 ti]
    email_facts(1) [of ti]
  by (simp add: fallback_doc_def fb_head_def fb_from_def fb_notice_def fb_body_def fb_link_def
      fb_tail_def nl_def)
     (simp add: uni_def)

lemma equals_head:
  "list_all (piv_ok 61 [[102], [70]] [])
     (fb_head (ScenarioType_value sc) @ fb_from (fst (sender_of ti)) (snd (sender_of ti))
      @ fb_notice @ fb_body (TargetIndustry_value ti) (ScenarioType_value sc) @ [uni ''hre''])"
  using piv_ok_free [OF email_facts(2) [of ti], of "[[102], [70]]" "[]"]
  by (simp add: fb_head_def fb_from_def fb_notice_def fb_body_def nl_def wordy_piv_ok wordy_fields)
     (simp add: piv_ok_def uni_def piv_scan_skip piv_scan_at_pivot del: piv_scan.simps(2))

lemma equals_tail:
  "list_all (piv_ok 61 [[102], [70]] []) (fb_tail (fst (sender_of ti)) (TargetIndustry_value ti))"
  by (simp add: fb_tail_def nl_def wordy_piv_ok wordy_fields)
     (simp add: piv_ok_def uni_def piv_scan_skip piv_scan_at_pivot del: piv_scan.simps(2))

lemma companies_head:
  "list_all (\<lambda>p. piv_ok 46 company_rpres (uni ''com'') (lower p)) (fb_head (ScenarioType_value sc))"
  by (simp add: fb_head_def nl_def wordy_lower_piv_ok wordy_fields)
     (simp add: piv_ok_def uni_def lower_def lower_cp_def company_rpres_def piv_scan_skip
       piv_scan_at_pivot del: piv_scan.simps(2))

lemma companies_middle:
  "list_all (\<lambda>p. piv_ok 46 company_rpres (uni ''com'') (lower p))
     (fb_from (fst (sender_of ti)) (snd (sender_of ti)) @ fb_notice
      @ fb_body (TargetIndustry_value ti) (ScenarioType_value sc)
      @ fb_link (slug_of (TargetIndustry_value ti)))"
  by (simp add: fb_from_def fb_notice_def fb_body_def fb_link_def nl_def
      wordy_lower_piv_ok wordy_fields email_facts)
     (simp add: piv_ok_def uni_def lower_def lower_cp_def company_rpres_def piv_scan_skip
       piv_scan_at_pivot del: piv_scan.simps(2))

lemma companies_tail:
  "list_all (\<lambda>p. piv_ok 46 company_rpres (uni ''com'') (lower p))
     (fb_tail (fst (sender_of ti)) (TargetIndustry_value ti))"
  by (simp add: fb_tail_def nl_def wordy_lower_piv_ok wordy_fields)
     (simp add: piv_ok_def uni_def lower_def lower_cp_def company_rpres_def piv_scan_skip
       piv_scan_at_pivot del: piv_scan.simps(2))

text \<open>
  HTML extraction: without a backtick no code-block pattern matches; the document starts
  with \<open><!DOCTYPE\<close> and ends with \<open></html>\<close>, so the markers bound the whole of it.
\<close>

lemma str_in_set: "str_in w s \<Longrightarrow> set w \<subseteq> set s"
  by (auto simp: str_in_iff)

lemma no_backtick_no_fence: "96 \<notin> set s \<Longrightarrow> first_match fence_patterns s = None"
proof (rule fence_needs_backticks)
  assume "96 \<notin> set s"
  moreover have "96 \<in> set (uni ''```'')" by (simp add: uni_def)
  ultimately show "\<not> str_in (uni ''```'') s" using str_in_set by blast
qed

lemma str_find_prefix: "prefix w s \<Longrightarrow> str_find w s = 0"
  by (cases s) auto

lemma find_start_zero: "find_start ms s 0 = 0"
  using find_start_spec [of 0 ms s] by auto

lemma str_rfind_suffix:
  assumes "w \<noteq> []"
  shows "str_rfind w (xs @ w) = int (length xs)"
proof -
  let ?s = "xs @ w" and ?r = "str_rfind w (xs @ w)"
  have "str_in w ?s" using str_in_appendI [of w xs "[]"] by simp
  then have ne: "?r \<noteq> - 1" by (simp add: str_rfind_none)
  then have nn: "0 \<le> ?r" "?r \<le> int (length ?s)" using str_rfind_bounds [of w ?s] by auto
  note last = str_rfind_last [OF ne]
  have "\<not> nat ?r < length xs"
  proof
    assume "nat ?r < length xs"
    moreover have "prefix w (drop (length xs) ?s)" by simp
    ultimately show False using last by auto
  qed
  moreover have "\<not> length xs < nat ?r"
  proof
    assume lt: "length xs < nat ?r"
    have "prefix w (drop (nat ?r) ?s)" using last by blast
    then have "length w \<le> length (drop (nat ?r) ?s)" by (rule prefix_length_le)
    moreover have "length (drop (nat ?r) ?s) = length xs + length w - nat ?r" by simp
    moreover have "0 < length w" using assms by simp
    ultimately show False using lt by arith
  qed
  ultimately show ?thesis using nn by linarith
qed

lemma strip_id: "s \<noteq> [] \<Longrightarrow> \<not> is_space (hd s) \<Longrightarrow> \<not> is_space (last s) \<Longrightarrow> strip s = s"
proof -
  assume s: "s \<noteq> []" and h: "\<not> is_space (hd s)" and l: "\<not> is_space (last s)"
  have 1: "dropWhile is_space s = s" using s h by (cases s) auto
  have "rev s \<noteq> []" "\<not> is_space (hd (rev s))" using s l by (simp_all add: hd_rev)
  then have 2: "dropWhile is_space (rev s) = rev s" by (cases "rev s") auto
  show ?thesis by (simp add: strip_def 1 2)
qed

lemma doc_ends:
  "\<exists>mid. fallback_doc sc ti = uni ''<!DOCTYPE'' @ mid @ uni ''</html>''"
proof -
  have "uni ''<!DOCTYPE html>'' = uni ''<!DOCTYPE'' @ uni '' html>''" by (simp add: uni_def)
  then show ?thesis
    by (simp add: fallback_doc_def fb_head_def fb_tail_def)
qed

lemma extract_html_doc:
  "extract_html_from_response (fallback_doc sc ti) = Some (fallback_doc sc ti)"
proof -
  let ?d = "fallback_doc sc ti"
  obtain mid where d: "?d = uni ''<!DOCTYPE'' @ mid @ uni ''</html>''"
    using doc_ends by blast
  have nofence: "first_match fence_patterns ?d = None"
    by (rule no_backtick_no_fence) (rule doc_no_backtick)
  have pre: "prefix (uni ''<!DOCTYPE'') ?d" by (simp add: d)
  then have gate: "str_in (uni ''<!DOCTYPE'') ?d"
    by (cases ?d) auto
  have start: "find_start start_markers ?d (- 1) = 0"
    using str_find_prefix [OF pre] by (simp add: start_markers_def find_start_zero)
  have "?d = (uni ''<!DOCTYPE'' @ mid) @ uni ''</html>''" by (simp add: d)
  then have "str_rfind (uni ''</html>'') ?d = int (length (uni ''<!DOCTYPE'' @ mid))"
    by (metis str_rfind_suffix uni_eq_iff uni_def list.map_disc_iff list.simps(3) list.simps(8))
  then have fin: "find_end end_markers ?d = int (length ?d)"
    by (simp add: end_markers_def d)
  have ne: "?d \<noteq> []" "hd ?d = 60" "last ?d = 62"
    by (simp_all add: d uni_def)
  have "strip (slice ?d 0 (int (length ?d))) = ?d"
    using ne by (simp add: slice_def strip_id is_space_def)
  then show ?thesis
    using nofence gate start fin by (simp add: extract_html_from_response_def)
qed

text \<open>
  \<open>re.findall\<close> over a text: positions without a match are passed over, and a match of the
  URL pattern needs \<open>f=\<close> or \<open>F=\<close> at its fourth and fifth character.
\<close>

lemma re_findall_Nil: "re_findall ps [] = []"
  by simp

lemma re_findall_skip:
  "(\<forall>j < length xs. re_match ps (drop j (xs @ ys)) = None)
     \<Longrightarrow> re_findall ps (xs @ ys) = re_findall ps ys"
proof (induction xs)
  case Nil
  then show ?case by simp
next
  case (Cons x xs)
  have 0: "re_match ps (x # xs @ ys) = None"
    using Cons.prems [rule_format, of 0] by simp
  have "\<forall>j < length xs. re_match ps (drop j (xs @ ys)) = None"
  proof (intro allI impI)
    fix j assume "j < length xs"
    then show "re_match ps (drop j (xs @ ys)) = None"
      using Cons.prems [rule_format, of "Suc j"] by simp
  qed
  then have ih: "re_findall ps (xs @ ys) = re_findall ps ys" by (rule Cons.IH)
  have "re_findall ps ((x # xs) @ ys) = re_findall ps (xs @ ys)"
    using 0 by (subst re_findall.simps) (simp del: re_findall.simps)
  then show ?case by (simp only: ih)
qed

lemma re_findall_none:
  "(\<forall>j < length s. re_match ps (drop j s) = None) \<Longrightarrow> re_findall ps s = []"
  using re_findall_skip [of s ps "[]"] by (simp del: re_findall.simps add: re_findall_Nil)

lemma re_findall_hit:
  assumes "re_match ps (xs @ ys) = Some (ms, ys)" and "xs \<noteq> []"
  shows "re_findall ps (xs @ ys) = groups ms # re_findall ps ys"
proof -
  obtain c cs where c: "xs @ ys = c # cs" "length ys < length (c # cs)"
    using assms(2) by (cases xs) auto
  have "re_findall ps (c # cs) = groups ms # re_findall ps ys"
    using assms(1) c by (subst re_findall.simps) (simp del: re_findall.simps)
  then show ?thesis by (simp only: c)
qed

lemma ChrI_SomeD:
  "re_match (ChrI c # ps) s = Some r
     \<Longrightarrow> \<exists>x xs. s = x # xs \<and> ci_eq c x \<and> re_match ps xs = Some r"
  by (cases s) (auto split: if_splits)

lemma url_pattern_shape:
  assumes "re_match url_pattern s = Some r"
  shows "\<exists>a b c x rest. s = a # b # c # x # 61 # rest \<and> (x = 102 \<or> x = 70)"
proof -
  obtain pt where up: "url_pattern = ChrI 104 # ChrI 114 # ChrI 101 # ChrI 102 # ChrI 61 # pt"
    by (simp add: url_pattern_def liti_def lower_ascii_def)
  from ChrI_SomeD [OF assms [unfolded up]] obtain a s1
    where 1: "s = a # s1" "re_match (ChrI 114 # ChrI 101 # ChrI 102 # ChrI 61 # pt) s1 = Some r"
    by blast
  from ChrI_SomeD [OF 1(2)] obtain b s2
    where 2: "s1 = b # s2" "re_match (ChrI 101 # ChrI 102 # ChrI 61 # pt) s2 = Some r"
    by blast
  from ChrI_SomeD [OF 2(2)] obtain c s3
    where 3: "s2 = c # s3" "re_match (ChrI 102 # ChrI 61 # pt) s3 = Some r"
    by blast
  from ChrI_SomeD [OF 3(2)] obtain x s4
    where 4: "s3 = x # s4" "ci_eq 102 x" "re_match (ChrI 61 # pt) s4 = Some r"
    by blast
  from ChrI_SomeD [OF 4(3)] obtain y s5
    where 5: "s4 = y # s5" "ci_eq 61 y"
    by blast
  have "x = 102 \<or> x = 70" using 4(2) by (auto simp: ci_eq_def)
  moreover have "y = 61" using 5(2) by (auto simp: ci_eq_def)
  ultimately show ?thesis using 1(1) 2(1) 3(1) 4(1) 5(1) by blast
qed

lemma url_region:
  assumes ok: "piv_ok 61 [[102], [70]] [] xs"
    and ys: "61 \<notin> set (take 1 ys)"
    and j: "j + 3 < length xs"
  shows "re_match url_pattern (drop j (xs @ ys)) = None"
proof (rule ccontr)
  define t where "t = xs @ ys"
  assume "re_match url_pattern (drop j (xs @ ys)) \<noteq> None"
  then obtain r where "re_match url_pattern (drop j t) = Some r" by (auto simp: t_def)
  from url_pattern_shape [OF this] obtain a b c x rest
    where s: "drop j t = a # b # c # x # 61 # rest" and x: "x = 102 \<or> x = 70"
    by blast
  have "drop (j + 3) t = drop 3 (drop j t)" by (simp add: add.commute)
  also have "\<dots> = x # 61 # rest" unfolding s by simp
  finally have "prefix ([x] @ 61 # []) (drop (j + 3) (xs @ ys))" by (simp add: t_def)
  moreover have "\<not> prefix ([x] @ 61 # []) (drop (j + 3) (xs @ ys))"
    by (rule piv_ok_no_occurrence [OF ok _ _ j]) (use x ys in auto)
  ultimately show False by blast
qed

lemma url_region_end:
  assumes ok: "piv_ok 61 [[102], [70]] [] xs"
  shows "re_match url_pattern (drop j xs) = None"
proof (rule ccontr)
  assume "re_match url_pattern (drop j xs) \<noteq> None"
  then obtain r where r: "re_match url_pattern (drop j xs) = Some r" by auto
  from url_pattern_shape [OF this] obtain a b c x rest
    where s: "drop j xs = a # b # c # x # 61 # rest"
    by blast
  have "length (drop j xs) = 5 + length rest" unfolding s by simp
  then have "j + 3 < length xs" by simp
  from url_region [OF ok _ this, of "[]"] r show False by simp
qed

text \<open>
  The first \<open><!--\<close> of the document is the one of the sender comment, so the leftmost match
  of the first sender pattern is that comment.
\<close>

lemma doc_sender:
  "first_match sender_patterns (fallback_doc sc ti)
     = Some [fst (sender_of ti) @ [32], snd (sender_of ti)]"
proof -
  define h where "h = concat (fb_head (ScenarioType_value sc))"
  define rest where "rest = concat (fb_notice
    @ fb_body (TargetIndustry_value ti) (ScenarioType_value sc)
    @ fb_link (slug_of (TargetIndustry_value ti))
    @ fb_tail (fst (sender_of ti)) (TargetIndustry_value ti))"
  define ys where "ys = concat (fb_from (fst (sender_of ti)) (snd (sender_of ti))) @ rest"
  have d: "fallback_doc sc ti = h @ ys"
    by (simp add: fallback_doc_def h_def ys_def rest_def)
  obtain ms r where m: "re_match (sender_patterns ! 0) ys = Some (ms, r)"
    and g: "groups ms = [fst (sender_of ti) @ [32], snd (sender_of ti)]"
    using from_comment_match [of ti rest] unfolding ys_def by blast
  have ok: "piv_ok 33 [[60]] [45, 45] h"
    unfolding h_def by (rule piv_ok_concat) (rule head_bang [OF wordy_scenario])
  have y1: "take 1 ys = [60]"
    by (simp add: ys_def fb_from_def uni_def)
  obtain pt where pat: "sender_patterns ! 0 = lit ''<!--'' @ pt"
    by (simp add: sender_patterns_def)
  have w: "uni ''<!--'' = [60] @ 33 # [45, 45]" by (simp add: uni_def)
  have none: "\<forall>j < length h. re_match (sender_patterns ! 0) (drop j (h @ ys)) = None"
  proof (intro allI impI)
    fix j assume j: "j < length h"
    have "\<not> prefix ([60] @ 33 # [45, 45]) (drop j (h @ ys))"
      by (rule piv_ok_no_occurrence [OF ok _ _ j]) (use y1 in simp_all)
    then have "\<not> prefix (uni ''<!--'') (drop j (h @ ys))" unfolding w .
    then show "re_match (sender_patterns ! 0) (drop j (h @ ys)) = None"
      by (simp only: pat re_match_lit if_False)
  qed
  have "re_match (sender_patterns ! 0) (drop (length h) (h @ ys)) = Some (ms, r)"
    using m by simp
  then have "re_search (sender_patterns ! 0) (h @ ys) = Some (ms, r)"
    using none by (intro re_search_SomeI [of "length h"]) simp_all
  moreover have "0 < length sender_patterns" by (simp add: sender_patterns_def)
  ultimately have "first_match sender_patterns (h @ ys) = Some (groups ms)"
    by (intro first_match_nth [of 0 _ _ ms r]) simp_all
  then show ?thesis by (simp only: d g)
qed

lemma doc_components:
  "extract_email_components (fallback_doc sc ti) ''sender_name'' = Some (fst (sender_of ti))"
  "extract_email_components (fallback_doc sc ti) ''sender_email'' = Some (snd (sender_of ti))"
  using email_facts(5) [of ti]
  by (simp_all add: extract_unfold doc_sender name_strip email_facts(4) Let_def)

text \<open>
  Safety validation: the disclaimer is there, the only link is the fake one, and no real
  company's domain occurs.
\<close>

lemma doc_training: "str_in (uni ''For training only'') (fallback_doc sc ti)"
proof -
  define a where "a = concat (fb_head (ScenarioType_value sc))
    @ concat (fb_from (fst (sender_of ti)) (snd (sender_of ti))) @ uni ''    <!-- ''"
  define c where "c = uni '' '' @ [8211] @ uni '' not a real phishing email -->'' @ nl
    @ concat (fb_body (TargetIndustry_value ti) (ScenarioType_value sc))
    @ concat (fb_link (slug_of (TargetIndustry_value ti)))
    @ concat (fb_tail (fst (sender_of ti)) (TargetIndustry_value ti))"
  have e: "uni ''    <!-- For training only ''
      = uni ''    <!-- '' @ uni ''For training only'' @ uni '' ''"
    by (simp add: uni_def)
  have "fallback_doc sc ti = a @ uni ''For training only'' @ c"
    by (simp add: fallback_doc_def fb_notice_def a_def c_def e)
  then show ?thesis by (simp only: str_in_appendI)
qed

lemma doc_comment:
  "str_in (uni ''<!-- From: '' @ fst (sender_of ti) @ uni '' <'' @ snd (sender_of ti) @ uni ''> -->'')
     (fallback_doc sc ti)"
proof -
  define a where "a = concat (fb_head (ScenarioType_value sc))"
  define c where "c = nl @ concat (fb_notice
    @ fb_body (TargetIndustry_value ti) (ScenarioType_value sc)
    @ fb_link (slug_of (TargetIndustry_value ti))
    @ fb_tail (fst (sender_of ti)) (TargetIndustry_value ti))"
  have "fallback_doc sc ti
      = a @ (uni ''<!-- From: '' @ fst (sender_of ti) @ uni '' <'' @ snd (sender_of ti)
             @ uni ''> -->'') @ c"
    by (simp add: fallback_doc_def fb_from_def a_def c_def)
  then show ?thesis by (simp only: str_in_appendI)
qed

lemma doc_urls:
  "re_findall url_pattern (fallback_doc sc ti)
     = [[uni ''http://fake-'' @ slug_of (TargetIndustry_value ti)
          @ uni ''-verification.com/verify'']]"
proof -
  define H where "H = concat (fb_head (ScenarioType_value sc)
    @ fb_from (fst (sender_of ti)) (snd (sender_of ti)) @ fb_notice
    @ fb_body (TargetIndustry_value ti) (ScenarioType_value sc))"
  define L where "L = concat (fb_link (slug_of (TargetIndustry_value ti)))"
  define T where "T = concat (fb_tail (fst (sender_of ti)) (TargetIndustry_value ti))"
  define L' where "L' = drop 3 L"
  have d: "fallback_doc sc ti = H @ L @ T"
    by (simp add: fallback_doc_def H_def L_def T_def)
  have l3: "L = uni ''hre'' @ L'"
    by (simp add: L'_def L_def fb_link_def uni_def)
  have l1: "61 \<notin> set (take 1 (L' @ T))"
    by (simp add: L'_def L_def fb_link_def uni_def)
  have "piv_ok 61 [[102], [70]] []
      (concat (fb_head (ScenarioType_value sc)
        @ fb_from (fst (sender_of ti)) (snd (sender_of ti)) @ fb_notice
        @ fb_body (TargetIndustry_value ti) (ScenarioType_value sc) @ [uni ''hre'']))"
    by (rule piv_ok_concat) (rule equals_head)
  then have okH: "piv_ok 61 [[102], [70]] [] (H @ uni ''hre'')"
    by (simp add: H_def)
  have okT: "piv_ok 61 [[102], [70]] [] T"
    unfolding T_def by (rule piv_ok_concat) (rule equals_tail)
  have eq: "H @ L @ T = (H @ uni ''hre'') @ (L' @ T)"
    by (simp add: l3)
  have "\<forall>j < length H. re_match url_pattern (drop j (H @ L @ T)) = None"
  proof (intro allI impI)
    fix j assume "j < length H"
    then have "j + 3 < length (H @ uni ''hre'')" by simp
    from url_region [OF okH l1 this] show "re_match url_pattern (drop j (H @ L @ T)) = None"
      by (simp only: eq)
  qed
  then have 1: "re_findall url_pattern (H @ L @ T) = re_findall url_pattern (L @ T)"
    by (rule re_findall_skip)
  obtain ms where m: "re_match url_pattern (L @ T) = Some (ms, T)"
    and g: "groups ms = [uni ''http://fake-'' @ slug_of (TargetIndustry_value ti)
                       @ uni ''-verification.com/verify'']"
    using link_match [of ti T] unfolding L_def by blast
  have "L \<noteq> []" by (simp add: l3 uni_def)
  with m have 2: "re_findall url_pattern (L @ T) = groups ms # re_findall url_pattern T"
    by (rule re_findall_hit)
  have 3: "re_findall url_pattern T = []"
    by (rule re_findall_none) (simp add: url_region_end [OF okT])
  show ?thesis by (simp only: d 1 2 3 g)
qed

lemma url_fake: "str_in (uni ''fake-'') (lower (uni ''http://fake-'' @ rest))"
proof -
  have "lower (uni ''http://fake-'') = uni ''http://'' @ uni ''fake-'' @ []"
    by (simp add: uni_def lower_def lower_cp_def)
  then have "lower (uni ''http://fake-'' @ rest) = uni ''http://'' @ uni ''fake-'' @ lower rest"
    by (simp add: lower_append)
  then show ?thesis by (simp only: str_in_appendI)
qed

lemma lower_concat: "lower (concat ps) = concat (map lower ps)"
  by (induction ps) (simp_all add: lower_append, simp add: lower_def)

lemma doc_companies:
  "piv_ok 46 company_rpres (uni ''com'') (lower (fallback_doc sc ti))"
proof -
  let ?ok = "\<lambda>p. piv_ok 46 company_rpres (uni ''com'') (lower p)"
  have "list_all ?ok
      (fb_head (ScenarioType_value sc)
       @ (fb_from (fst (sender_of ti)) (snd (sender_of ti)) @ fb_notice
          @ fb_body (TargetIndustry_value ti) (ScenarioType_value sc)
          @ fb_link (slug_of (TargetIndustry_value ti)))
       @ fb_tail (fst (sender_of ti)) (TargetIndustry_value ti))"
    using companies_head [of sc] companies_middle [of ti sc] companies_tail [of ti]
    by (simp only: list_all_append simp_thms)
  then have "list_all (piv_ok 46 company_rpres (uni ''com''))
      (map lower (fb_head (ScenarioType_value sc)
       @ (fb_from (fst (sender_of ti)) (snd (sender_of ti)) @ fb_notice
          @ fb_body (TargetIndustry_value ti) (ScenarioType_value sc)
          @ fb_link (slug_of (TargetIndustry_value ti)))
       @ fb_tail (fst (sender_of ti)) (TargetIndustry_value ti)))"
    by (simp only: list_all_iff set_map ball_simps)
  then have "piv_ok 46 company_rpres (uni ''com'')
      (concat (map lower (fb_head (ScenarioType_value sc)
       @ (fb_from (fst (sender_of ti)) (snd (sender_of ti)) @ fb_notice
          @ fb_body (TargetIndustry_value ti) (ScenarioType_value sc)
          @ fb_link (slug_of (TargetIndustry_value ti)))
       @ fb_tail (fst (sender_of ti)) (TargetIndustry_value ti))))"
    by (rule piv_ok_concat)
  then show ?thesis
    by (simp only: fallback_doc_def lower_concat append_assoc)
qed

lemma doc_no_company:
  "filter (\<lambda>company. str_in company (lower (fallback_doc sc ti))) real_companies = []"
proof -
  note no = piv_ok_not_str_in [OF doc_companies [of sc ti]]
  have "\<not> str_in (uni ''microsoft'' @ 46 # uni ''com'') (lower (fallback_doc sc ti))"
    "\<not> str_in (uni ''google'' @ 46 # uni ''com'') (lower (fallback_doc sc ti))"
    "\<not> str_in (uni ''amazon'' @ 46 # uni ''com'') (lower (fallback_doc sc ti))"
    "\<not> str_in (uni ''apple'' @ 46 # uni ''com'') (lower (fallback_doc sc ti))"
    "\<not> str_in (uni ''facebook'' @ 46 # uni ''com'') (lower (fallback_doc sc ti))"
    by (rule no, simp add: company_rpres_def)+
  moreover have "uni ''microsoft.com'' = uni ''microsoft'' @ 46 # uni ''com''"
    "uni ''google.com'' = uni ''google'' @ 46 # uni ''com''"
    "uni ''amazon.com'' = uni ''amazon'' @ 46 # uni ''com''"
    "uni ''apple.com'' = uni ''apple'' @ 46 # uni ''com''"
    "uni ''facebook.com'' = uni ''facebook'' @ 46 # uni ''com''"
    by (simp_all add: uni_def)
  ultimately show ?thesis
    by (simp add: real_companies_def)
qed

lemma validate_doc: "validate_html_safety (fallback_doc sc ti) = (True, [])"
  by (simp add: validate_html_safety_def Let_def doc_training doc_urls first_group_def
      fake_markers_def url_fake doc_no_company del: re_findall.simps)

text \<open>
  Claim C2. For every request, whatever its scenario, industry, urgency and tone, the
  document that \<open>create_fallback_template\<close> builds from the request's values carries
  the comment \<open><!-- From: Name <address> -->\<close> with the name and address that
  \<open>get_fallback_sender_info\<close> gives for the request's industry. The HTML extraction
  returns the document unchanged, the email-component extraction of it yields exactly
  that sender name and that sender address, and the safety validation of the document
  returns the safe flag true with an empty list of issues.
\<close>

theorem fallback_round_trip:
  "let html = create_fallback_template (request_dict request);
       sender = get_fallback_sender_info (TargetIndustry_value (target_industry request))
   in str_in (uni ''<!-- From: '' @ fst sender @ uni '' <'' @ snd sender @ uni ''> -->'') html
      \<and> extract_html_from_response html = Some html
      \<and> extract_email_components html ''sender_name'' = Some (fst sender)
      \<and> extract_email_components html ''sender_email'' = Some (snd sender)
      \<and> validate_html_safety html = (True, [])"
  unfolding Let_def create_fallback_template_request sender_of_def [symmetric]
  using doc_comment extract_html_doc doc_components validate_doc by blast

theorem fallback_round_trip_witness:
  "extract_html_from_response (create_fallback_template (request_dict request0))
     = Some (create_fallback_template (request_dict request0))
   \<and> extract_email_components (create_fallback_template (request_dict request0)) ''sender_name''
       = Some (uni ''Security Department'')
   \<and> extract_email_components (create_fallback_template (request_dict request0)) ''sender_email''
       = Some (uni ''security@fake-firstnational-alerts.com'')
   \<and> validate_html_safety (create_fallback_template (request_dict request0)) = (True, [])"
proof -
  have "get_fallback_sender_info (TargetIndustry_value (target_industry request0))
      = (uni ''Security Department'', uni ''security@fake-firstnational-alerts.com'')"
    using sender_of_simps(1) by (simp add: request0_def sender_of_def)
  with fallback_round_trip [of request0] show ?thesis
    by (simp add: Let_def)
qed

end
